theory Spec2Isabelle
  imports Complex_Main "HOL-Library.Char_ord" "HOL-Library.List_Lexorder"
    "HOL-Library.Product_Lexorder"
begin

section \<open>Errors\<close>

text \<open>
  The exceptions of \<^verbatim>\<open>APP_Calculo.py\<close> as values. \<open>FormulaParseError\<close> is the
  program's own exception class; its payload tells the \<^verbatim>\<open>raise\<close> statements apart
  (the messages are Spanish, given here without accents):
  \<^item> \<open>UnrecognizedToken\<close>: "hay un simbolo no reconocido cerca de ..." in
    \<^verbatim>\<open>tokenize\<close>, with the excerpt \<^verbatim>\<open>formula[pos:pos+5]\<close>;
  \<^item> \<open>UnclosedGroup\<close>: "Falta cerrar un parentesis.";
  \<^item> \<open>UnclosedGroupAfterNumber\<close>: "Falta cerrar un parentesis tras el numero.";
  \<^item> \<open>DanglingMultiplier\<close>: "Hay un numero sin un elemento o grupo despues.";
  \<^item> \<open>ExtraClosingParen\<close>: "Sobra un parentesis de cierre.";
  \<^item> \<open>UnknownElement\<close>: "Simbolo quimico desconocido" in \<^verbatim>\<open>get_atomic_weight\<close>.

  \<open>RuntimeError\<close> is raised by \<^verbatim>\<open>get_atomic_weight\<close> when the library
  \<^verbatim>\<open>periodictable\<close> could not be imported, and \<open>ValueError_not_multiple\<close> by
  \<^verbatim>\<open>molecular_formula\<close>. The last two are raised by Python itself and by no
  statement of the program: \<open>ValueError_min_empty\<close> by \<^verbatim>\<open>min\<close> on an empty
  sequence, \<open>ZeroDivisionError\<close> by a division.
\<close>

datatype message =
    UnrecognizedToken string
  | UnclosedGroup
  | UnclosedGroupAfterNumber
  | DanglingMultiplier
  | ExtraClosingParen
  | UnknownElement string

datatype exn =
    FormulaParseError message
  | RuntimeError
  | ValueError_not_multiple
  | ValueError_min_empty
  | ZeroDivisionError

text \<open>Whether an exception comes from a \<^verbatim>\<open>raise\<close> statement of the program.\<close>

fun raised_by_program :: "exn \<Rightarrow> bool" where
  "raised_by_program (FormulaParseError m) = True"
| "raised_by_program RuntimeError = True"
| "raised_by_program ValueError_not_multiple = True"
| "raised_by_program ValueError_min_empty = False"
| "raised_by_program ZeroDivisionError = False"

section \<open>Tokenizer\<close>

text \<open>
  A formula is a Python string; here a \<open>string\<close> whose characters are the code points
  below 256, so the middle dot U+00B7 is \<open>CHR 0xB7\<close>. A token is the pair
  \<^verbatim>\<open>(kind, val)\<close> of the name of the group that matched and the matched text.
  The character classes are those of \<^verbatim>\<open>_token_pat\<close> on these code points:
  \<^verbatim>\<open>\d\<close> is 0-9, and \<^verbatim>\<open>\s\<close> is 9-13, 28-32, 0x85 and 0xA0.
\<close>

datatype kind = Dot | LParen | RParen | Number | Elem | Space

type_synonym token = "kind \<times> string"

definition is_dot :: "char \<Rightarrow> bool" where
  "is_dot c = (c = CHR ''.'' \<or> c = CHR 0xB7)"

definition is_lparen :: "char \<Rightarrow> bool" where
  "is_lparen c = (c = CHR ''('' \<or> c = CHR ''['' \<or> c = CHR ''{'')"

definition is_rparen :: "char \<Rightarrow> bool" where
  "is_rparen c = (c = CHR '')'' \<or> c = CHR '']'' \<or> c = CHR ''}'')"

definition is_digit :: "char \<Rightarrow> bool" where
  "is_digit c = (48 \<le> (of_char c :: nat) \<and> (of_char c :: nat) \<le> 57)"

definition is_upper :: "char \<Rightarrow> bool" where
  "is_upper c = (65 \<le> (of_char c :: nat) \<and> (of_char c :: nat) \<le> 90)"

definition is_lower :: "char \<Rightarrow> bool" where
  "is_lower c = (97 \<le> (of_char c :: nat) \<and> (of_char c :: nat) \<le> 122)"

definition is_space :: "char \<Rightarrow> bool" where
  "is_space c = (let n = (of_char c :: nat) in
     (9 \<le> n \<and> n \<le> 13) \<or> (28 \<le> n \<and> n \<le> 32) \<or> n = 133 \<or> n = 160)"

text \<open>
  \<^verbatim>\<open>tokenize\<close> is a generator and \<^verbatim>\<open>parse_formula\<close> consumes it whole with
  \<^verbatim>\<open>list(...)\<close>, so an unrecognised character anywhere makes the whole call raise.
  \<open>emit\<close> is the \<^verbatim>\<open>yield\<close>. The argument of \<open>tokenize\<close> is
  \<^verbatim>\<open>formula[pos:]\<close>; the alternatives are tried in the order of the pattern.
\<close>

definition emit :: "token \<Rightarrow> exn + token list \<Rightarrow> exn + token list" where
  "emit t r = (case r of Inl e \<Rightarrow> Inl e | Inr ts \<Rightarrow> Inr (t # ts))"

function tokenize :: "string \<Rightarrow> exn + token list" where
  "tokenize [] = Inr []"
| "tokenize (c # cs) =
     (if is_dot c then emit (Dot, [c]) (tokenize cs)
      else if is_lparen c then emit (LParen, [c]) (tokenize cs)
      else if is_rparen c then emit (RParen, [c]) (tokenize cs)
      else if is_digit c then
        emit (Number, c # takeWhile is_digit cs) (tokenize (dropWhile is_digit cs))
      else if is_upper c then
        (case cs of
           [] \<Rightarrow> emit (Elem, [c]) (tokenize cs)
         | d # ds \<Rightarrow> if is_lower d then emit (Elem, [c, d]) (tokenize ds)
                    else emit (Elem, [c]) (tokenize cs))
      else if is_space c then tokenize (dropWhile is_space cs)
      else Inl (FormulaParseError (UnrecognizedToken (take 5 (c # cs)))))"
  by pat_completeness auto
termination
  by (relation "measure length") (auto simp: less_Suc_eq_le length_dropWhile_le)

section \<open>Dictionaries\<close>

text \<open>
  A Python \<^verbatim>\<open>dict\<close> keeps its keys in insertion order: an association list with
  distinct keys. \<open>dict_set\<close> is \<^verbatim>\<open>d[k] = v\<close> (an existing key keeps its place, a
  new one goes to the end), \<open>dict_get\<close> is \<^verbatim>\<open>d.get(k, dflt)\<close>, \<open>dict_update\<close> is
  \<^verbatim>\<open>d.update(other)\<close>. Two dictionaries are equal in Python when they hold the same
  keys with the same values, in any order: \<open>map_of a = map_of b\<close>.
\<close>

type_synonym 'v dict = "(string \<times> 'v) list"

definition dict_get :: "'v dict \<Rightarrow> string \<Rightarrow> 'v \<Rightarrow> 'v" where
  "dict_get d k dflt = (case map_of d k of None \<Rightarrow> dflt | Some v \<Rightarrow> v)"

fun dict_set :: "'v dict \<Rightarrow> string \<Rightarrow> 'v \<Rightarrow> 'v dict" where
  "dict_set [] k v = [(k, v)]"
| "dict_set ((k', v') # d) k v =
     (if k' = k then (k, v) # d else (k', v') # dict_set d k v)"

definition dict_update :: "'v dict \<Rightarrow> 'v dict \<Rightarrow> 'v dict" where
  "dict_update d other = foldl (\<lambda>acc (k, v). dict_set acc k v) d other"

definition multiply_counts :: "int dict \<Rightarrow> int \<Rightarrow> int dict" where
  "multiply_counts counts k = map (\<lambda>(el, cnt). (el, cnt * k)) counts"

definition merge_counts :: "int dict \<Rightarrow> int dict \<Rightarrow> int dict" where
  "merge_counts a b =
     foldl (\<lambda>out (el, cnt). dict_set out el (dict_get out el 0 + cnt)) a b"

section \<open>Parser\<close>

text \<open>
  \<open>py_int\<close> is \<^verbatim>\<open>int(val)\<close> on a string of the digits 0-9, the only strings a
  \<open>Number\<close> token of \<open>tokenize\<close> carries. \<open>at_kind k ts\<close> is the test
  \<^verbatim>\<open>i < len(tokens) and tokens[i][0] == k\<close>, where \<open>ts\<close> is \<^verbatim>\<open>tokens[i:]\<close>;
  \<^verbatim>\<open>i += 1\<close> is \<open>tl\<close>. \<open>opt_number\<close> is the optional multiplier read after an
  element or a closing bracket (four times in the source):
  \<^verbatim>\<open>mult = 1; if i < len(tokens) and tokens[i][0] == "number": mult = int(tokens[i][1]); i += 1\<close>.
  Python's integers are unbounded, hence \<open>int\<close>; the limits of an interpreter (on the
  depth of recursion, and in CPython 3.11 and later on the number of digits that
  \<^verbatim>\<open>int\<close> and the f-string convert) are not part of the model.
\<close>

definition py_int :: "string \<Rightarrow> int" where
  "py_int s = foldl (\<lambda>a c. 10 * a + (int (of_char c) - 48)) 0 s"

definition at_kind :: "kind \<Rightarrow> token list \<Rightarrow> bool" where
  "at_kind k ts = (case ts of [] \<Rightarrow> False | t # _ \<Rightarrow> fst t = k)"

definition opt_number :: "token list \<Rightarrow> int \<times> token list" where
  "opt_number ts = (if at_kind Number ts then (py_int (snd (hd ts)), tl ts) else (1, ts))"

text \<open>
  \<open>parse_unit_from counts ts\<close> is the \<^verbatim>\<open>while\<close> loop of the closure
  \<^verbatim>\<open>parse_unit\<close> with the dictionary \<open>counts\<close> built so far and the cursor at the
  head of \<open>ts\<close>; it returns the dictionary and the tokens from the cursor on. The equations
  follow the branches of the loop: end of input, \<^verbatim>\<open>rparen\<close> (left unread),
  \<^verbatim>\<open>dot\<close>, \<^verbatim>\<open>elem\<close>, \<^verbatim>\<open>lparen\<close>, \<^verbatim>\<open>number\<close>, and the last
  \<^verbatim>\<open>else\<close>, which skips a token of any other kind.
\<close>

function parse_unit_from :: "int dict \<Rightarrow> token list \<Rightarrow> exn + (int dict \<times> token list)" where
  "parse_unit_from counts [] = Inr (counts, [])"
| "parse_unit_from counts ((RParen, val) # ts) = Inr (counts, (RParen, val) # ts)"
| "parse_unit_from counts ((Dot, val) # ts) =
     (case parse_unit_from [] ts of
        Inl e \<Rightarrow> Inl e
      | Inr (right, ts') \<Rightarrow> Inr (dict_update counts (merge_counts counts right), ts'))"
| "parse_unit_from counts ((Elem, val) # ts) =
     (case opt_number ts of
        (mult, ts') \<Rightarrow> parse_unit_from (dict_set counts val (dict_get counts val 0 + mult)) ts')"
| "parse_unit_from counts ((LParen, val) # ts) =
     (case parse_unit_from [] ts of
        Inl e \<Rightarrow> Inl e
      | Inr (inner, ts1) \<Rightarrow>
          if \<not> at_kind RParen ts1 then Inl (FormulaParseError UnclosedGroup)
          else (case opt_number (tl ts1) of
                  (mult, ts2) \<Rightarrow>
                    parse_unit_from (merge_counts counts (multiply_counts inner mult)) ts2))"
| "parse_unit_from counts ((Number, val) # ts) =
     (if \<not> (at_kind Elem ts \<or> at_kind LParen ts)
      then Inl (FormulaParseError DanglingMultiplier)
      else if at_kind Elem ts then
        (case opt_number (tl ts) of
           (cnt, ts1) \<Rightarrow>
             parse_unit_from
               (dict_set counts (snd (hd ts))
                  (dict_get counts (snd (hd ts)) 0 + py_int val * cnt)) ts1)
      else
        (case parse_unit_from [] (tl ts) of
           Inl e \<Rightarrow> Inl e
         | Inr (inner, ts1) \<Rightarrow>
             if \<not> at_kind RParen ts1 then Inl (FormulaParseError UnclosedGroupAfterNumber)
             else (case opt_number (tl ts1) of
                     (cnt, ts2) \<Rightarrow>
                       parse_unit_from
                         (merge_counts counts (multiply_counts inner (py_int val * cnt))) ts2)))"
| "parse_unit_from counts ((Space, val) # ts) = parse_unit_from counts ts"
  by pat_completeness auto

text \<open>The cursor only advances: what is needed for the nested calls to terminate.\<close>

lemma opt_number_length: "opt_number ts = (m, ts') \<Longrightarrow> length ts' \<le> length ts"
  by (auto simp: opt_number_def split: if_splits)

lemma at_kind_tl: "at_kind k ts \<Longrightarrow> length (tl ts) < length ts"
  by (cases ts) (auto simp: at_kind_def)

lemma parse_unit_from_length:
  "parse_unit_from_dom (counts, ts) \<Longrightarrow> parse_unit_from counts ts = Inr (c, r)
     \<Longrightarrow> length r \<le> length ts"
proof (induction counts ts arbitrary: c r rule: parse_unit_from.pinduct)
  case (1 counts)
  then show ?case by (simp add: parse_unit_from.psimps)
next
  case (2 counts val ts)
  then show ?case by (simp add: parse_unit_from.psimps)
next
  case (3 counts val ts)
  then show ?case by (auto simp: parse_unit_from.psimps split: sum.splits prod.splits)
next
  case (4 counts val ts)
  obtain mult ts' where o: "opt_number ts = (mult, ts')" by (cases "opt_number ts")
  from "4.prems" "4.hyps" o
  have "parse_unit_from (dict_set counts val (dict_get counts val 0 + mult)) ts' = Inr (c, r)"
    by (simp add: parse_unit_from.psimps)
  from "4.IH"[OF o[symmetric] this] opt_number_length[OF o] show ?case by simp
next
  case (5 counts val ts)
  from "5.prems" "5.hyps" obtain inner ts1 where
    i: "parse_unit_from [] ts = Inr (inner, ts1)"
    by (auto simp: parse_unit_from.psimps split: sum.splits)
  from "5.prems" "5.hyps" i have k: "at_kind RParen ts1"
    by (auto simp: parse_unit_from.psimps split: if_splits)
  obtain mult ts2 where o: "opt_number (tl ts1) = (mult, ts2)" by (cases "opt_number (tl ts1)")
  from "5.prems" "5.hyps" i k o
  have e: "parse_unit_from (merge_counts counts (multiply_counts inner mult)) ts2 = Inr (c, r)"
    by (simp add: parse_unit_from.psimps)
  have "length ts1 \<le> length ts" using "5.IH"(1)[OF i] .
  moreover have "length r \<le> length ts2" using "5.IH"(2) i k o[symmetric] e by blast
  ultimately show ?case using opt_number_length[OF o] at_kind_tl[OF k] by simp
next
  case (6 counts val ts)
  show ?case
  proof (cases "at_kind Elem ts")
    case True
    obtain cnt ts1 where o: "opt_number (tl ts) = (cnt, ts1)" by (cases "opt_number (tl ts)")
    from "6.prems" "6.hyps" True o
    have e: "parse_unit_from
               (dict_set counts (snd (hd ts)) (dict_get counts (snd (hd ts)) 0 + py_int val * cnt))
               ts1 = Inr (c, r)"
      by (simp add: parse_unit_from.psimps)
    have "length r \<le> length ts1" using "6.IH"(1) True o[symmetric] e by blast
    then show ?thesis using opt_number_length[OF o] at_kind_tl[OF True] by simp
  next
    case False
    from "6.prems" "6.hyps" False have l: "at_kind LParen ts"
      by (auto simp: parse_unit_from.psimps split: if_splits)
    from "6.prems" "6.hyps" False l obtain inner ts1 where
      i: "parse_unit_from [] (tl ts) = Inr (inner, ts1)"
      by (auto simp: parse_unit_from.psimps split: sum.splits)
    from "6.prems" "6.hyps" False l i have k: "at_kind RParen ts1"
      by (auto simp: parse_unit_from.psimps split: if_splits)
    obtain cnt ts2 where o: "opt_number (tl ts1) = (cnt, ts2)" by (cases "opt_number (tl ts1)")
    from "6.prems" "6.hyps" False l i k o
    have e: "parse_unit_from (merge_counts counts (multiply_counts inner (py_int val * cnt))) ts2
             = Inr (c, r)"
      by (simp add: parse_unit_from.psimps)
    have "length ts1 \<le> length (tl ts)" using "6.IH"(2) False l i by blast
    moreover have "length r \<le> length ts2" using "6.IH"(3) False l i k o[symmetric] e by blast
    ultimately show ?thesis
      using opt_number_length[OF o] at_kind_tl[OF k] at_kind_tl[OF l] by simp
  qed
next
  case (7 counts val ts)
  then show ?case by (auto simp: parse_unit_from.psimps)
qed

lemma opt_number_le: "(m, ts') = opt_number ts \<Longrightarrow> length ts' < Suc (length ts)"
  using opt_number_length[of ts m ts'] by simp

lemma opt_number_tl_le:
  "(m, ts') = opt_number (tl ts) \<Longrightarrow> at_kind k ts \<Longrightarrow> length ts' < length ts"
  using opt_number_length[of "tl ts" m ts'] at_kind_tl[of k ts] by simp

termination parse_unit_from
proof (relation "measure (\<lambda>(c, ts). length ts)", goal_cases)
  case 1 show ?case by simp
next
  case 2 show ?case by simp
next
  case 3
  then show ?case by (simp add: opt_number_le)
next
  case 4 show ?case by simp
next
  case 5
  then show ?case
    using parse_unit_from_length opt_number_tl_le by (fastforce simp: less_Suc_eq_le)
next
  case 6
  then show ?case using opt_number_tl_le by (fastforce simp: less_Suc_eq_le)
next
  case 7
  then show ?case using at_kind_tl by (fastforce simp: less_Suc_eq_le)
next
  case 8
  then show ?case
    using parse_unit_from_length opt_number_tl_le at_kind_tl
    by (fastforce simp: less_Suc_eq_le)
next
  case 9 show ?case by simp
qed

text \<open>
  A call \<^verbatim>\<open>parse_unit()\<close> starts from the empty dictionary. \<open>parse_formula\<close> tokenizes,
  parses one unit from the first token and rejects a closing bracket left at the cursor.
\<close>

definition parse_unit :: "token list \<Rightarrow> exn + (int dict \<times> token list)" where
  "parse_unit ts = parse_unit_from [] ts"

definition parse_formula :: "string \<Rightarrow> exn + int dict" where
  "parse_formula formula =
     (case tokenize formula of
        Inl e \<Rightarrow> Inl e
      | Inr tokens \<Rightarrow>
          (case parse_unit tokens of
             Inl e \<Rightarrow> Inl e
           | Inr (counts, rest) \<Rightarrow>
               if at_kind RParen rest then Inl (FormulaParseError ExtraClosingParen)
               else Inr counts))"

text \<open>
  For stating results: \<open>is_symbol\<close> is a text that the pattern of \<^verbatim>\<open>elem\<close> matches
  as a whole; \<open>tokens_ok b\<close> holds of a token list whose numbers are at least \<open>b\<close> and
  whose elements are symbols; \<open>dict_ok b\<close> holds of a dictionary with distinct keys, all
  symbols, and values at least \<open>b\<close>.
\<close>

definition is_symbol :: "string \<Rightarrow> bool" where
  "is_symbol el =
     (case el of
        [c] \<Rightarrow> is_upper c
      | [c, d] \<Rightarrow> is_upper c \<and> is_lower d
      | _ \<Rightarrow> False)"

definition tokens_ok :: "int \<Rightarrow> token list \<Rightarrow> bool" where
  "tokens_ok b ts =
     list_all (\<lambda>(k, v). (k = Number \<longrightarrow> b \<le> py_int v) \<and> (k = Elem \<longrightarrow> is_symbol v)) ts"

definition dict_ok :: "int \<Rightarrow> int dict \<Rightarrow> bool" where
  "dict_ok b d = (distinct (map fst d) \<and> list_all (\<lambda>(el, n). is_symbol el \<and> b \<le> n) d)"

section \<open>Formatter\<close>

text \<open>
  \<open>show_int\<close> is the decimal text of a Python integer, as the f-string \<^verbatim>\<open>f"{n}"\<close>
  writes it. \<open>format_formula\<close> sorts the items by \<open>order_key\<close> (Python compares the
  tuples lexicographically and the strings by code point; \<^verbatim>\<open>sorted\<close> is stable, as
  \<open>sort_key\<close> is) and joins the element symbols, each followed by its count unless the
  count is 1.
\<close>

function show_nat :: "nat \<Rightarrow> string" where
  "show_nat n =
     (if n < 10 then [char_of (48 + n)]
      else show_nat (n div 10) @ [char_of (48 + n mod 10)])"
  by pat_completeness auto
termination
  by (relation "measure id") auto

declare show_nat.simps [simp del]

definition show_int :: "int \<Rightarrow> string" where
  "show_int i = (if i < 0 then CHR ''-'' # show_nat (nat (- i)) else show_nat (nat i))"

definition order_key :: "string \<times> int \<Rightarrow> nat \<times> string" where
  "order_key item =
     (let el = fst item in
      if el = ''C'' then (0, el) else if el = ''H'' then (1, el) else (2, el))"

definition format_formula :: "int dict \<Rightarrow> string" where
  "format_formula counts =
     concat (map (\<lambda>(el, n). el @ (if n = 1 then [] else show_int n))
               (sort_key order_key counts))"

text \<open>
  For stating results: the text that \<open>format_formula\<close> writes for one item, and the
  tokens that text consists of.
\<close>

definition render_item :: "string \<times> int \<Rightarrow> string" where
  "render_item item = (case item of (el, n) \<Rightarrow> el @ (if n = 1 then [] else show_int n))"

definition item_tokens :: "string \<times> int \<Rightarrow> token list" where
  "item_tokens item =
     (case item of (el, n) \<Rightarrow> (Elem, el) # (if n = 1 then [] else [(Number, show_int n)]))"

section \<open>Element data\<close>

text \<open>
  The atomic weights come from the library \<^verbatim>\<open>periodictable\<close>, which is not part of the
  program: the model takes it as a parameter \<open>pt\<close>, \<open>None\<close> when the import failed and
  otherwise the table that gives \<^verbatim>\<open>float(getattr(pt, symbol).mass)\<close>, or \<open>None\<close> where
  that raises. A float is given by the real number it holds. The molar mass and
  \<^verbatim>\<open>molecular_formula\<close>, whose test against 0.03 depends on the last bit, are computed
  with the rounding of doubles (below); the quotients of \<^verbatim>\<open>percent_composition\<close> and
  of \<^verbatim>\<open>empirical_formula_from_pairs\<close> are taken exactly.
\<close>

type_synonym periodictable = "string \<Rightarrow> real option"

definition get_atomic_weight :: "periodictable option \<Rightarrow> string \<Rightarrow> exn + real" where
  "get_atomic_weight pt symbol =
     (case pt of
        None \<Rightarrow> Inl RuntimeError
      | Some tbl \<Rightarrow>
          if symbol = ''D'' then Inr (201410177812 / 100000000000)
          else (case tbl symbol of
                  None \<Rightarrow> Inl (FormulaParseError (UnknownElement symbol))
                | Some m \<Rightarrow> Inr m))"

text \<open>
  A few rows of the table for the closed examples below (standard atomic weights rounded
  to three decimals); the general theorems hold for every table.
\<close>

definition sample_table :: periodictable where
  "sample_table =
     map_of [(''H'', 1008 / 1000), (''C'', 12011 / 1000), (''N'', 14007 / 1000),
             (''O'', 15999 / 1000), (''S'', 3206 / 100), (''Cu'', 63546 / 1000)]"

text \<open>
  For stating results: \<open>has_weight\<close> says that the lookup of a symbol succeeds with a
  positive weight, and \<open>weight_of\<close> is that weight.
\<close>

definition has_weight :: "periodictable option \<Rightarrow> string \<Rightarrow> bool" where
  "has_weight pt symbol = (case get_atomic_weight pt symbol of Inl e \<Rightarrow> False | Inr w \<Rightarrow> 0 < w)"

definition weight_of :: "periodictable option \<Rightarrow> string \<Rightarrow> real" where
  "weight_of pt symbol = (case get_atomic_weight pt symbol of Inl e \<Rightarrow> 0 | Inr w \<Rightarrow> w)"

section \<open>Stoichiometry\<close>

text \<open>
  \<open>py_round\<close> is \<^verbatim>\<open>round(x)\<close> with one argument: the nearest integer, the even one
  when \<open>x\<close> is halfway between two.
\<close>

definition py_round :: "real \<Rightarrow> int" where
  "py_round x =
     (let f = \<lfloor>x\<rfloor>; d = x - of_int f in
      if d < 1 / 2 then f else if 1 / 2 < d then f + 1 else if even f then f else f + 1)"

text \<open>
  The arithmetic of doubles. A float is given by the real number it holds, and
  \<open>double_round\<close> is the rounding of IEEE 754 binary64 to the nearest double, ties to the
  even mantissa: with \<open>2 ^ e \<le> \<bar>x\<bar> < 2 ^ (e + 1)\<close> the doubles near \<open>x\<close> are the
  multiples of \<open>2 ^ e / 2 ^ 52\<close>. \<open>bit_length n\<close> is the number of binary digits of
  \<open>n\<close>, \<open>exponent x\<close> is that \<open>e\<close> for a positive \<open>x\<close>. An operation on floats is
  the exact operation, rounded; its operands are first read as the doubles nearest to
  them, as Python reads a decimal literal and as \<^verbatim>\<open>float(el.mass)\<close> and the conversion
  of an \<^verbatim>\<open>int\<close> operand do, which changes nothing for an operand that is a double.
  Numbers beyond the normal range of doubles (overflow to infinity, subnormal numbers,
  NaN) are outside the model.
\<close>

function bit_length :: "int \<Rightarrow> int" where
  "bit_length n = (if n \<le> 0 then 0 else 1 + bit_length (n div 2))"
  by pat_completeness auto
termination
  by (relation "measure nat") auto

declare bit_length.simps [simp del]

definition two_pow :: "int \<Rightarrow> real" where
  "two_pow e = (if 0 \<le> e then 2 ^ nat e else 1 / 2 ^ nat (- e))"

definition exponent :: "real \<Rightarrow> int" where
  "exponent x =
     (if 1 \<le> x then bit_length \<lfloor>x\<rfloor> - 1
      else - bit_length (\<lceil>1 / x\<rceil> - 1))"

definition double_round :: "real \<Rightarrow> real" where
  "double_round x =
     (if x = 0 then 0
      else (let u = two_pow (exponent \<bar>x\<bar>) / 2 ^ 52 in of_int (py_round (x / u)) * u))"

definition float_add :: "real \<Rightarrow> real \<Rightarrow> real" where
  "float_add x y = double_round (double_round x + double_round y)"

definition float_sub :: "real \<Rightarrow> real \<Rightarrow> real" where
  "float_sub x y = double_round (double_round x - double_round y)"

definition float_mul :: "real \<Rightarrow> real \<Rightarrow> real" where
  "float_mul x y = double_round (double_round x * double_round y)"

definition float_div :: "real \<Rightarrow> real \<Rightarrow> real" where
  "float_div x y = double_round (double_round x / double_round y)"

text \<open>
  \<open>sum_weights pt acc items\<close> is \<^verbatim>\<open>sum(get_atomic_weight(el) * n for el, n in items)\<close>
  with the partial sum \<open>acc\<close>: the first unknown symbol raises. The products and the
  additions are those of doubles, added from left to right (CPython 3.12 and later
  compensate the rounding inside \<^verbatim>\<open>sum\<close>, which can change the last bit of a sum of
  three or more terms).
\<close>

fun sum_weights :: "periodictable option \<Rightarrow> real \<Rightarrow> int dict \<Rightarrow> exn + real" where
  "sum_weights pt acc [] = Inr acc"
| "sum_weights pt acc ((el, n) # items) =
     (case get_atomic_weight pt el of
        Inl e \<Rightarrow> Inl e
      | Inr w \<Rightarrow> sum_weights pt (float_add acc (float_mul w (of_int n))) items)"

definition molar_mass :: "periodictable option \<Rightarrow> string \<Rightarrow> exn + real" where
  "molar_mass pt formula =
     (case parse_formula formula of
        Inl e \<Rightarrow> Inl e
      | Inr counts \<Rightarrow> sum_weights pt 0 counts)"

text \<open>
  \<open>percents\<close> is the dictionary comprehension of \<^verbatim>\<open>percent_composition\<close>, with the
  dictionary \<open>acc\<close> built so far; the division raises when \<open>total_mm\<close> is zero.
\<close>

fun percents :: "periodictable option \<Rightarrow> real \<Rightarrow> real dict \<Rightarrow> int dict \<Rightarrow> exn + real dict"
  where
  "percents pt total_mm acc [] = Inr acc"
| "percents pt total_mm acc ((el, n) # items) =
     (case get_atomic_weight pt el of
        Inl e \<Rightarrow> Inl e
      | Inr w \<Rightarrow>
          if total_mm = 0 then Inl ZeroDivisionError
          else percents pt total_mm (dict_set acc el (100 * w * of_int n / total_mm)) items)"

definition percent_composition ::
  "periodictable option \<Rightarrow> string \<Rightarrow> exn + (real dict \<times> real)" where
  "percent_composition pt formula =
     (case parse_formula formula of
        Inl e \<Rightarrow> Inl e
      | Inr counts \<Rightarrow>
          (case molar_mass pt formula of
             Inl e \<Rightarrow> Inl e
           | Inr total_mm \<Rightarrow>
               (case percents pt total_mm [] counts of
                  Inl e \<Rightarrow> Inl e
                | Inr pcts \<Rightarrow> Inr (pcts, total_mm))))"

text \<open>
  \<open>compute_moles\<close> is the first loop of \<^verbatim>\<open>empirical_formula_from_pairs\<close>, with the
  flag \<^verbatim>\<open>base100\<close> computed before it (the default of \<^verbatim>\<open>tolerance\<close> is 0.05,
  the model takes it as an argument); \<open>round_all\<close> is the inner loop over the ratios
  for one scale \<open>k\<close> (\<open>None\<close> when it breaks with \<^verbatim>\<open>ok = False\<close>), \<open>accumulate\<close> the
  loop that sums the rounded counts by symbol, \<open>probe\<close> the loop over the scales, and
  \<open>fallback_counts\<close> the dictionary comprehension after it.
\<close>

fun compute_moles ::
  "periodictable option \<Rightarrow> bool \<Rightarrow> (string \<times> real) list \<Rightarrow> exn + (string \<times> real) list" where
  "compute_moles pt base100 [] = Inr []"
| "compute_moles pt base100 ((symb, val) # pairs) =
     (case get_atomic_weight pt symb of
        Inl e \<Rightarrow> Inl e
      | Inr mm \<Rightarrow>
          (let grams = (if \<not> base100 then val else val) in
           if mm = 0 then Inl ZeroDivisionError
           else (case compute_moles pt base100 pairs of
                   Inl e \<Rightarrow> Inl e
                 | Inr moles \<Rightarrow> Inr ((symb, grams / mm) # moles))))"

fun round_all :: "real \<Rightarrow> int \<Rightarrow> (string \<times> real) list \<Rightarrow> (string \<times> int) list option" where
  "round_all tolerance k [] = Some []"
| "round_all tolerance k ((symb, r) # ratios) =
     (let x = r * of_int k; n = py_round x in
      if n = 0 \<or> tolerance < \<bar>x - of_int n\<bar> then None
      else (case round_all tolerance k ratios of
              None \<Rightarrow> None
            | Some rounded \<Rightarrow> Some ((symb, n) # rounded)))"

definition accumulate :: "(string \<times> int) list \<Rightarrow> int dict" where
  "accumulate rounded =
     foldl (\<lambda>counts (symb, n). dict_set counts symb (dict_get counts symb 0 + n)) [] rounded"

fun probe :: "real \<Rightarrow> int list \<Rightarrow> (string \<times> real) list \<Rightarrow> string option" where
  "probe tolerance [] ratios = None"
| "probe tolerance (k # ks) ratios =
     (case round_all tolerance k ratios of
        Some rounded \<Rightarrow> Some (format_formula (accumulate rounded))
      | None \<Rightarrow> probe tolerance ks ratios)"

definition fallback_counts :: "(string \<times> real) list \<Rightarrow> int dict" where
  "fallback_counts ratios =
     foldl (\<lambda>counts (symb, r). dict_set counts symb (max 1 (py_round r))) [] ratios"

text \<open>
  \<open>base100\<close> is the flag of that name, computed from the sum of the values.
  \<open>compute_ratios\<close> takes the smallest positive mole figure, \<^verbatim>\<open>min\<close> raising on none,
  and divides every figure by it. \<open>formula_from_ratios\<close> is the rest of the function.
\<close>

definition base100 :: "(string \<times> real) list \<Rightarrow> bool" where
  "base100 pairs = (let total = sum_list (map snd pairs) in 95 \<le> total \<and> total \<le> 105)"

definition compute_ratios :: "(string \<times> real) list \<Rightarrow> exn + (string \<times> real) list" where
  "compute_ratios moles =
     (case filter (\<lambda>v. 0 < v) (map snd moles) of
        [] \<Rightarrow> Inl ValueError_min_empty
      | v # vs \<Rightarrow>
          (let minmol = foldl min v vs in
           if minmol = 0 then Inl ZeroDivisionError
           else Inr (map (\<lambda>(symb, v). (symb, v / minmol)) moles)))"

definition formula_from_ratios :: "(string \<times> real) list \<Rightarrow> real \<Rightarrow> string" where
  "formula_from_ratios ratios tolerance =
     (case probe tolerance [1, 2, 3, 4, 5, 6, 8, 10] ratios of
        Some formula \<Rightarrow> formula
      | None \<Rightarrow> format_formula (fallback_counts ratios))"

definition empirical_formula_from_pairs ::
  "periodictable option \<Rightarrow> (string \<times> real) list \<Rightarrow> real \<Rightarrow> exn + string" where
  "empirical_formula_from_pairs pt pairs tolerance =
     (case compute_moles pt (base100 pairs) pairs of
        Inl e \<Rightarrow> Inl e
      | Inr moles \<Rightarrow>
          (case compute_ratios moles of
             Inl e \<Rightarrow> Inl e
           | Inr ratios \<Rightarrow> Inr (formula_from_ratios ratios tolerance)))"

text \<open>
  The mole figures in the words of the specification, for comparison with
  \<open>compute_moles\<close>: "compute each element's moles = value / weight(symbol)", with no
  flag and no sum.
\<close>

fun spec_moles :: "periodictable option \<Rightarrow> (string \<times> real) list \<Rightarrow> exn + (string \<times> real) list"
  where
  "spec_moles pt [] = Inr []"
| "spec_moles pt ((symb, val) # pairs) =
     (case get_atomic_weight pt symb of
        Inl e \<Rightarrow> Inl e
      | Inr w \<Rightarrow>
          if w = 0 then Inl ZeroDivisionError
          else (case spec_moles pt pairs of
                  Inl e \<Rightarrow> Inl e
                | Inr moles \<Rightarrow> Inr ((symb, val / w) # moles)))"

text \<open>
  \<^verbatim>\<open>molecular_formula\<close> computes in doubles: the molar mass as above, the quotient
  \<^verbatim>\<open>target_molar_mass / emp_mm\<close>, the difference \<^verbatim>\<open>ratio - k\<close> and the literal
  \<^verbatim>\<open>0.03\<close>, which is the double nearest to 3/100. \<^verbatim>\<open>round\<close> of a double is exact.
\<close>

definition molecular_formula :: "periodictable option \<Rightarrow> string \<Rightarrow> real \<Rightarrow> exn + string" where
  "molecular_formula pt empirical_formula target_molar_mass =
     (case parse_formula empirical_formula of
        Inl e \<Rightarrow> Inl e
      | Inr emp_counts \<Rightarrow>
          (case sum_weights pt 0 emp_counts of
             Inl e \<Rightarrow> Inl e
           | Inr emp_mm \<Rightarrow>
               if emp_mm = 0 then Inl ZeroDivisionError
               else
                 (let ratio = float_div target_molar_mass emp_mm; k = py_round ratio in
                  if k \<le> 0 \<or> double_round (3 / 100) < \<bar>float_sub ratio (of_int k)\<bar>
                  then Inl ValueError_not_multiple
                  else Inr (format_formula (map (\<lambda>(el, n). (el, n * k)) emp_counts)))))"

section \<open>The hydrate example\<close>

text \<open>
  Claim C1: \<^verbatim>\<open>parse_formula\<close> on the text of copper sulfate pentahydrate, CuSO4, a
  middle dot, 5H2O. The claim expects the coefficient 5 to scale the whole unit H2O, that
  is oxygen 4 + 5 = 9. The program reads the 5 in the \<^verbatim>\<open>number\<close> branch, where it
  multiplies only the element that follows it (H2 becomes H10); the O after it counts
  once, so the result holds oxygen 4 + 1 = 5.
\<close>

theorem parse_formula_hydrate_value:
  "parse_formula (''CuSO4'' @ [CHR 0xB7] @ ''5H2O'')
     = Inr [(''Cu'', 1), (''S'', 1), (''O'', 5), (''H'', 10)]"
  by code_simp

section \<open>A leading number\<close>

text \<open>
  Claim C5: when the loop of \<^verbatim>\<open>parse_unit\<close> meets a \<open>Number\<close> token (one that was
  not read as the multiplier after an element or a closing bracket), the next token must
  be an element or an opening bracket. Followed by anything else, or by the end of the
  input, the parse fails with \<open>DanglingMultiplier\<close>; so does the text "3". Followed by an
  element, the number is multiplied with the element's own optional multiplier \<open>cnt\<close> and
  the product is added to that element. Followed by a group, the counts of the group are
  scaled by the product of the number and the multiplier after the closing bracket.
\<close>

theorem leading_number_rule:
  "(\<not> (at_kind Elem ts0 \<or> at_kind LParen ts0) \<longrightarrow>
      parse_unit_from counts ((Number, val) # ts0) = Inl (FormulaParseError DanglingMultiplier))
   \<and> (opt_number ts1 = (cnt, rest1) \<longrightarrow>
      parse_unit_from counts ((Number, val) # (Elem, el) # ts1)
        = parse_unit_from (dict_set counts el (dict_get counts el 0 + py_int val * cnt)) rest1)
   \<and> (parse_unit ts2 = Inr (inner, (RParen, b) # ts3) \<and> opt_number ts3 = (cnt', rest3) \<longrightarrow>
      parse_unit_from counts ((Number, val) # (LParen, a) # ts2)
        = parse_unit_from (merge_counts counts (multiply_counts inner (py_int val * cnt'))) rest3)
   \<and> parse_formula ''3'' = Inl (FormulaParseError DanglingMultiplier)"
proof (intro conjI impI)
  assume "\<not> (at_kind Elem ts0 \<or> at_kind LParen ts0)"
  then show "parse_unit_from counts ((Number, val) # ts0)
               = Inl (FormulaParseError DanglingMultiplier)"
    by simp
next
  assume "opt_number ts1 = (cnt, rest1)"
  then show "parse_unit_from counts ((Number, val) # (Elem, el) # ts1)
        = parse_unit_from (dict_set counts el (dict_get counts el 0 + py_int val * cnt)) rest1"
    by (simp add: at_kind_def)
next
  assume "parse_unit ts2 = Inr (inner, (RParen, b) # ts3) \<and> opt_number ts3 = (cnt', rest3)"
  then show "parse_unit_from counts ((Number, val) # (LParen, a) # ts2)
        = parse_unit_from (merge_counts counts (multiply_counts inner (py_int val * cnt'))) rest3"
    by (simp add: at_kind_def parse_unit_def)
next
  show "parse_formula ''3'' = Inl (FormulaParseError DanglingMultiplier)"
    by code_simp
qed

text \<open>The three cases on the token lists of "3.", "3Na2" and "2(NH4)3".\<close>

theorem leading_number_rule_witness:
  "\<not> (at_kind Elem [(Dot, ''.'')] \<or> at_kind LParen [(Dot, ''.'')])
   \<and> parse_unit_from [] [(Number, ''3''), (Dot, ''.'')] = Inl (FormulaParseError DanglingMultiplier)
   \<and> opt_number [(Number, ''2'')] = (2, [])
   \<and> parse_unit_from [] [(Number, ''3''), (Elem, ''Na''), (Number, ''2'')] = Inr ([(''Na'', 6)], [])
   \<and> parse_unit [(Elem, ''N''), (Elem, ''H''), (Number, ''4''), (RParen, '')''), (Number, ''3'')]
        = Inr ([(''N'', 1), (''H'', 4)], [(RParen, '')''), (Number, ''3'')])
   \<and> opt_number [(Number, ''3'')] = (3, [])
   \<and> parse_unit_from []
         [(Number, ''2''), (LParen, ''(''), (Elem, ''N''), (Elem, ''H''), (Number, ''4''),
          (RParen, '')''), (Number, ''3'')]
        = Inr ([(''N'', 6), (''H'', 24)], [])"
proof -
  have h0: "\<not> (at_kind Elem [(Dot, ''.'')] \<or> at_kind LParen [(Dot, ''.'')])"
    by (simp add: at_kind_def)
  have h1: "opt_number [(Number, ''2'')] = (2, [])"
    by code_simp
  have h2: "parse_unit [(Elem, ''N''), (Elem, ''H''), (Number, ''4''), (RParen, '')''), (Number, ''3'')]
        = Inr ([(''N'', 1), (''H'', 4)], [(RParen, '')''), (Number, ''3'')])"
    by code_simp
  have h3: "opt_number [(Number, ''3'')] = (3, [])"
    by code_simp
  have e1: "parse_unit_from (dict_set [] ''Na'' (dict_get [] ''Na'' 0 + py_int ''3'' * 2)) []
              = Inr ([(''Na'', 6)], [])"
    by code_simp
  have e2: "parse_unit_from (merge_counts [] (multiply_counts [(''N'', 1), (''H'', 4)] (py_int ''2'' * 3))) []
              = Inr ([(''N'', 6), (''H'', 24)], [])"
    by code_simp
  note t = leading_number_rule [where ?ts0.0 = "[(Dot, ''.'')]" and counts = "[]" and val = "''3''"
      and ?ts1.0 = "[(Number, ''2'')]" and cnt = 2 and ?rest1.0 = "[]" and el = "''Na''"]
  note u = leading_number_rule [where counts = "[]" and val = "''2''"
      and ?ts2.0 = "[(Elem, ''N''), (Elem, ''H''), (Number, ''4''), (RParen, '')''), (Number, ''3'')]"
      and inner = "[(''N'', 1), (''H'', 4)]" and b = "'')''" and ?ts3.0 = "[(Number, ''3'')]"
      and cnt' = 3 and ?rest3.0 = "[]" and a = "''(''"]
  have c0: "parse_unit_from [] [(Number, ''3''), (Dot, ''.'')]
              = Inl (FormulaParseError DanglingMultiplier)"
    by (rule mp [OF conjunct1 [OF t] h0])
  have c1: "parse_unit_from [] [(Number, ''3''), (Elem, ''Na''), (Number, ''2'')]
              = Inr ([(''Na'', 6)], [])"
    by (rule trans [OF mp [OF conjunct1 [OF conjunct2 [OF t]] h1] e1])
  have c2: "parse_unit_from []
         [(Number, ''2''), (LParen, ''(''), (Elem, ''N''), (Elem, ''H''), (Number, ''4''),
          (RParen, '')''), (Number, ''3'')]
        = Inr ([(''N'', 6), (''H'', 24)], [])"
    by (rule trans [OF mp [OF conjunct1 [OF conjunct2 [OF conjunct2 [OF u]]] conjI [OF h2 h3]] e2])
  show ?thesis by (intro conjI h0 c0 h1 c1 h2 h3 c2)
qed

section \<open>Zero molar mass\<close>

lemma sum_weights_head:
  "sum_weights pt acc ((el, n) # items) = Inr x \<Longrightarrow> \<exists>w. get_atomic_weight pt el = Inr w"
  by (cases "get_atomic_weight pt el") auto

text \<open>
  Claim C9: \<^verbatim>\<open>molecular_formula\<close> divides the target by the molar mass of the
  empirical formula with no test for zero. When the text parses to the empty dictionary,
  as the empty text does, the sum of the weights is 0 and the call ends in Python's
  \<open>ZeroDivisionError\<close>, which no \<^verbatim>\<open>raise\<close> of the program produces; the same
  happens for any parse whose weights sum to 0.
\<close>

theorem molecular_formula_zero_mass:
  "(parse_formula s = Inr [] \<longrightarrow>
      sum_weights pt 0 [] = Inr 0 \<and> molecular_formula pt s target = Inl ZeroDivisionError)
   \<and> (parse_formula s' = Inr emp_counts \<and> sum_weights pt 0 emp_counts = Inr 0 \<longrightarrow>
      molecular_formula pt s' target = Inl ZeroDivisionError)
   \<and> parse_formula [] = Inr []
   \<and> molecular_formula pt [] target = Inl ZeroDivisionError
   \<and> \<not> raised_by_program ZeroDivisionError"
proof -
  have e: "parse_formula [] = Inr []"
    by (simp add: parse_formula_def parse_unit_def at_kind_def)
  then show ?thesis by (simp add: molecular_formula_def)
qed

theorem molecular_formula_zero_mass_witness:
  "parse_formula ''( )'' = Inr []
   \<and> molecular_formula (Some sample_table) ''( )'' (18016 / 100) = Inl ZeroDivisionError
   \<and> parse_formula ''H0'' = Inr [(''H'', 0)]
   \<and> sum_weights (Some sample_table) 0 [(''H'', 0)] = Inr 0
   \<and> molecular_formula (Some sample_table) ''H0'' (18016 / 100) = Inl ZeroDivisionError"
proof -
  have h0: "parse_formula ''( )'' = Inr []" by code_simp
  have h1: "parse_formula ''H0'' = Inr [(''H'', 0)]" by code_simp
  have h2: "sum_weights (Some sample_table) 0 [(''H'', 0)] = Inr 0" by code_simp
  note t = molecular_formula_zero_mass [of "''( )''" "Some sample_table" "18016 / 100"
      "''H0''" "[(''H'', 0)]"]
  have c0: "molecular_formula (Some sample_table) ''( )'' (18016 / 100) = Inl ZeroDivisionError"
    using t h0 by blast
  have c1: "molecular_formula (Some sample_table) ''H0'' (18016 / 100) = Inl ZeroDivisionError"
    using t h1 h2 by blast
  show ?thesis by (intro conjI h0 c0 h1 h2 c1)
qed

text \<open>
  Claim C2 says that \<^verbatim>\<open>percent_composition\<close> fails with a zero-molar-mass error
  whenever the total molar mass is zero, the empty formula included, and never returns a
  total of 0. The program has no such test. For the empty formula the dictionary
  comprehension runs over no item, no division takes place, and the call returns the
  empty mapping with the total 0.
\<close>

theorem percent_composition_empty_returns:
  "percent_composition (Some sample_table) [] = Inr ([], 0)"
  by code_simp

text \<open>
  Claim C2 as amended: when the total molar mass is zero, \<^verbatim>\<open>percent_composition\<close>
  returns the empty mapping and the total 0 if the parsed dictionary is empty, and
  otherwise ends in Python's \<open>ZeroDivisionError\<close> at the first division. So a result
  with total 0 is returned only for an empty dictionary.
\<close>

theorem percent_composition_zero_mass:
  assumes "parse_formula s = Inr counts" and "molar_mass pt s = Inr 0"
  shows "percent_composition pt s = (if counts = [] then Inr ([], 0) else Inl ZeroDivisionError)"
proof (cases counts)
  case Nil
  with assms show ?thesis by (simp add: percent_composition_def)
next
  case (Cons item items)
  obtain el n where i: "item = (el, n)" by (cases item)
  from assms Cons i have "sum_weights pt 0 ((el, n) # items) = Inr 0"
    by (simp add: molar_mass_def)
  then obtain w where "get_atomic_weight pt el = Inr w"
    using sum_weights_head by blast
  with assms Cons i show ?thesis by (simp add: percent_composition_def)
qed

theorem percent_composition_zero_mass_witness:
  "parse_formula ''H0'' = Inr [(''H'', 0)]
   \<and> molar_mass (Some sample_table) ''H0'' = Inr 0
   \<and> percent_composition (Some sample_table) ''H0'' = Inl ZeroDivisionError"
proof -
  have h1: "parse_formula ''H0'' = Inr [(''H'', 0)]" by code_simp
  have h2: "molar_mass (Some sample_table) ''H0'' = Inr 0" by code_simp
  from percent_composition_zero_mass [OF h1 h2]
  have "percent_composition (Some sample_table) ''H0'' = Inl ZeroDivisionError" by simp
  with h1 h2 show ?thesis by (intro conjI)
qed

section \<open>Empirical formula\<close>

subsection \<open>The steps of the computation\<close>

lemma has_weightD:
  "has_weight pt symb \<Longrightarrow> get_atomic_weight pt symb = Inr (weight_of pt symb) \<and> 0 < weight_of pt symb"
  by (auto simp: has_weight_def weight_of_def split: sum.splits)

lemma compute_moles_known:
  assumes "\<forall>(symb, v) \<in> set pairs. has_weight pt symb"
  shows "compute_moles pt b pairs = Inr (map (\<lambda>(symb, v). (symb, v / weight_of pt symb)) pairs)"
  using assms
proof (induction pairs)
  case Nil
  show ?case by simp
next
  case (Cons p pairs)
  obtain symb v where p: "p = (symb, v)" by (cases p)
  from Cons.prems p have w: "get_atomic_weight pt symb = Inr (weight_of pt symb)"
    "0 < weight_of pt symb"
    using has_weightD [of pt symb] by auto
  from Cons.prems have "\<forall>(symb, v) \<in> set pairs. has_weight pt symb"
    by simp
  from Cons.IH [OF this] p w show ?case by simp
qed


lemma compute_ratios_no_positive:
  "\<forall>(symb, m) \<in> set moles. m \<le> 0 \<Longrightarrow> compute_ratios moles = Inl ValueError_min_empty"
proof -
  assume a: "\<forall>(symb, m) \<in> set moles. m \<le> 0"
  have "filter (\<lambda>v. 0 < v) (map snd moles) = []"
    using a by (auto simp: filter_empty_conv)
  then show ?thesis by (simp add: compute_ratios_def)
qed


lemma py_round_near:
  assumes "\<bar>x - of_int k\<bar> < 1 / 2"
  shows "py_round x = k"
proof (cases "of_int k \<le> x")
  case True
  with assms have "\<lfloor>x\<rfloor> = k" by (intro floor_unique) auto
  with assms True show ?thesis by (simp add: py_round_def Let_def)
next
  case False
  with assms have f: "\<lfloor>x\<rfloor> = k - 1" by (intro floor_unique) auto
  with assms False show ?thesis by (auto simp: py_round_def Let_def)
qed






subsection \<open>No positive value\<close>

text \<open>
  Claim C7 says that \<^verbatim>\<open>empirical_formula_from_pairs\<close> fails with a guarded error of
  its own when every value is zero or negative. The program has no such guard: with
  carbon 0 and hydrogen -1 the generator given to \<^verbatim>\<open>min\<close> is empty and the call ends
  in the \<open>ValueError\<close> that \<^verbatim>\<open>min\<close> raises, which is not raised by a statement of the
  program.
\<close>

theorem empirical_all_nonpositive_unguarded:
  "empirical_formula_from_pairs (Some sample_table) [(''C'', 0), (''H'', - 1)] (5 / 100)
     = Inl ValueError_min_empty
   \<and> \<not> raised_by_program ValueError_min_empty"
  by code_simp

text \<open>
  Claim C7 as amended: when every symbol has a positive weight and every value is zero or
  negative, \<^verbatim>\<open>empirical_formula_from_pairs\<close> fails, not with a division by zero and not
  with an error of its own, but with the \<open>ValueError\<close> of \<^verbatim>\<open>min\<close> on an empty
  sequence.
\<close>

theorem empirical_no_positive_value:
  assumes "\<forall>(symb, v) \<in> set pairs. has_weight pt symb"
    and "\<forall>(symb, v) \<in> set pairs. v \<le> 0"
  shows "empirical_formula_from_pairs pt pairs tolerance = Inl ValueError_min_empty"
proof -
  let ?moles = "map (\<lambda>(symb, v). (symb, v / weight_of pt symb)) pairs"
  have m: "compute_moles pt (base100 pairs) pairs = Inr ?moles"
    by (rule compute_moles_known [OF assms(1)])
  have "\<forall>(symb, m) \<in> set ?moles. m \<le> 0"
  proof (clarsimp)
    fix symb v assume i: "(symb, v) \<in> set pairs"
    with assms have "has_weight pt symb" "v \<le> 0" by auto
    then show "v / weight_of pt symb \<le> 0"
      using has_weightD [of pt symb] by (simp add: divide_le_0_iff)
  qed
  then have "compute_ratios ?moles = Inl ValueError_min_empty"
    by (rule compute_ratios_no_positive)
  with m show ?thesis by (simp add: empirical_formula_from_pairs_def)
qed

theorem empirical_no_positive_value_witness:
  "empirical_formula_from_pairs (Some sample_table) [(''C'', 0), (''O'', - 2)] (5 / 100)
     = Inl ValueError_min_empty"
proof -
  have h1: "\<forall>(symb, v) \<in> set [(''C'', 0 :: real), (''O'', - 2)]. has_weight (Some sample_table) symb"
    by (simp add: has_weight_def get_atomic_weight_def sample_table_def)
  have h2: "\<forall>(symb, v) \<in> set [(''C'', 0 :: real), (''O'', - 2)]. v \<le> 0"
    by simp
  from empirical_no_positive_value [OF h1 h2] show ?thesis .
qed

subsection \<open>The sum of the values\<close>

text \<open>
  Claim C8: the mole figure of every pair is its value divided by the weight of its
  symbol, whatever the flag computed from the sum of the values, and the result of
  \<^verbatim>\<open>empirical_formula_from_pairs\<close> is the one computed from these figures: the sum of
  the values has no effect on the formula.
\<close>

theorem moles_ignore_sum:
  "compute_moles pt b pairs = spec_moles pt pairs
   \<and> empirical_formula_from_pairs pt pairs tolerance =
       (case spec_moles pt pairs of
          Inl e \<Rightarrow> Inl e
        | Inr moles \<Rightarrow>
            (case compute_ratios moles of
               Inl e \<Rightarrow> Inl e
             | Inr ratios \<Rightarrow> Inr (formula_from_ratios ratios tolerance)))"
proof -
  have "compute_moles pt b pairs = spec_moles pt pairs" for b
  proof (induction pairs)
    case Nil
    show ?case by simp
  next
    case (Cons p pairs)
    obtain symb v where p: "p = (symb, v)" by (cases p)
    show ?case
    proof (cases "get_atomic_weight pt symb")
      case (Inl e)
      with p show ?thesis by simp
    next
      case (Inr w)
      with p Cons.IH show ?thesis by (simp del: if_not_P)
    qed
  qed
  then show ?thesis by (simp add: empirical_formula_from_pairs_def)
qed

text \<open>
  The same percentages once summing to 100 (flag set) and once divided by ten (flag not
  set): the same figures as the specification's, and the same formula.
\<close>

theorem moles_ignore_sum_witness:
  "base100 [(''C'', 40), (''H'', 671 / 100), (''O'', 5329 / 100)]
   \<and> \<not> base100 [(''C'', 4), (''H'', 671 / 1000), (''O'', 5329 / 1000)]
   \<and> compute_moles (Some sample_table) True [(''C'', 40), (''H'', 671 / 100), (''O'', 5329 / 100)]
       = spec_moles (Some sample_table) [(''C'', 40), (''H'', 671 / 100), (''O'', 5329 / 100)]
   \<and> compute_moles (Some sample_table) False [(''C'', 4), (''H'', 671 / 1000), (''O'', 5329 / 1000)]
       = spec_moles (Some sample_table) [(''C'', 4), (''H'', 671 / 1000), (''O'', 5329 / 1000)]
   \<and> empirical_formula_from_pairs (Some sample_table)
        [(''C'', 40), (''H'', 671 / 100), (''O'', 5329 / 100)] (5 / 100) = Inr ''CH2O''
   \<and> empirical_formula_from_pairs (Some sample_table)
        [(''C'', 4), (''H'', 671 / 1000), (''O'', 5329 / 1000)] (5 / 100) = Inr ''CH2O''"
proof -
  have h1: "base100 [(''C'', 40), (''H'', 671 / 100), (''O'', 5329 / 100)]"
    by (simp add: base100_def)
  have h2: "\<not> base100 [(''C'', 4), (''H'', 671 / 1000), (''O'', 5329 / 1000)]"
    by (simp add: base100_def)
  note t = moles_ignore_sum [of "Some sample_table" True
      "[(''C'', 40), (''H'', 671 / 100), (''O'', 5329 / 100)]" "5 / 100"]
  note u = moles_ignore_sum [of "Some sample_table" False
      "[(''C'', 4), (''H'', 671 / 1000), (''O'', 5329 / 1000)]" "5 / 100"]
  have v1: "(case spec_moles (Some sample_table)
                  [(''C'', 40), (''H'', 671 / 100), (''O'', 5329 / 100)] of
          Inl e \<Rightarrow> Inl e
        | Inr moles \<Rightarrow>
            (case compute_ratios moles of
               Inl e \<Rightarrow> Inl e
             | Inr ratios \<Rightarrow> Inr (formula_from_ratios ratios (5 / 100)))) = Inr ''CH2O''"
    by code_simp
  have v2: "(case spec_moles (Some sample_table)
                  [(''C'', 4), (''H'', 671 / 1000), (''O'', 5329 / 1000)] of
          Inl e \<Rightarrow> Inl e
        | Inr moles \<Rightarrow>
            (case compute_ratios moles of
               Inl e \<Rightarrow> Inl e
             | Inr ratios \<Rightarrow> Inr (formula_from_ratios ratios (5 / 100)))) = Inr ''CH2O''"
    by code_simp
  show ?thesis
    by (intro conjI h1 h2 conjunct1 [OF t] conjunct1 [OF u]
        trans [OF conjunct2 [OF t] v1] trans [OF conjunct2 [OF u] v2])
qed

subsection \<open>A pair with value zero\<close>




section \<open>Molecular formula\<close>

subsection \<open>How far a double is from the number it rounds\<close>

lemma bit_length_bounds:
  "0 < n \<Longrightarrow> 2 ^ nat (bit_length n - 1) \<le> n \<and> n < 2 ^ nat (bit_length n) \<and> 1 \<le> bit_length n"
proof (induction n rule: bit_length.induct)
  case (1 n)
  show ?case
  proof (cases "n = 1")
    case True
    have "bit_length 1 = 1"
      by (simp add: bit_length.simps [of 1] bit_length.simps [of 0])
    with True show ?thesis by simp
  next
    case False
    with "1.prems" have h: "0 < n div 2" by simp
    with "1.IH" "1.prems" have IH: "2 ^ nat (bit_length (n div 2) - 1) \<le> n div 2"
      "n div 2 < 2 ^ nat (bit_length (n div 2))" "1 \<le> bit_length (n div 2)"
      by simp_all
    have b: "bit_length n = 1 + bit_length (n div 2)"
      using "1.prems" by (simp add: bit_length.simps [of n])
    have e: "nat (bit_length (n div 2)) = Suc (nat (bit_length (n div 2) - 1))"
      using IH(3) by simp
    have "2 ^ nat (bit_length n - 1) \<le> n"
    proof -
      have "(2::int) ^ nat (bit_length (n div 2)) = 2 * 2 ^ nat (bit_length (n div 2) - 1)"
        by (subst e) simp
      also have "\<dots> \<le> 2 * (n div 2)" using IH(1) by simp
      also have "\<dots> \<le> n" by simp
      finally show ?thesis by (simp add: b)
    qed
    moreover have "n < 2 ^ nat (bit_length n)"
    proof -
      have "n < 2 * (n div 2 + 1)" by presburger
      also have "\<dots> \<le> 2 * 2 ^ nat (bit_length (n div 2))" using IH(2) by simp
      also have "\<dots> = 2 ^ nat (bit_length n)"
        using IH(3) by (simp add: b nat_add_distrib)
      finally show ?thesis .
    qed
    ultimately show ?thesis using b IH(3) by simp
  qed
qed

lemma two_pow_pos: "0 < two_pow e"
  by (simp add: two_pow_def)

lemma two_pow_exponent_le:
  assumes "0 < x"
  shows "two_pow (exponent x) \<le> x"
proof (cases "1 \<le> x")
  case True
  then have n: "0 < \<lfloor>x\<rfloor>" by simp
  from bit_length_bounds [OF n]
  have "(2::int) ^ nat (bit_length \<lfloor>x\<rfloor> - 1) \<le> \<lfloor>x\<rfloor>" and "1 \<le> bit_length \<lfloor>x\<rfloor>" by simp_all
  then have "(2::real) ^ nat (bit_length \<lfloor>x\<rfloor> - 1) \<le> of_int \<lfloor>x\<rfloor>"
    by (metis of_int_le_iff of_int_numeral of_int_power)
  also have "\<dots> \<le> x" by simp
  finally show ?thesis
    using True \<open>1 \<le> bit_length \<lfloor>x\<rfloor>\<close> by (simp add: exponent_def two_pow_def)
next
  case False
  with assms have y: "1 < 1 / x" by simp
  let ?N = "\<lceil>1 / x\<rceil>"
  have n: "0 < ?N - 1" using y by linarith
  let ?k = "bit_length (?N - 1)"
  from bit_length_bounds [OF n] have "?N - 1 < 2 ^ nat ?k" and k: "1 \<le> ?k" by simp_all
  then have "?N \<le> 2 ^ nat ?k" by simp
  then have "of_int ?N \<le> (2::real) ^ nat ?k"
    by (metis of_int_le_iff of_int_numeral of_int_power)
  moreover have "1 / x \<le> of_int ?N" by simp
  ultimately have "1 / x \<le> 2 ^ nat ?k" by linarith
  then have "1 / 2 ^ nat ?k \<le> x"
    using assms by (simp add: field_simps)
  with False k show ?thesis by (simp add: exponent_def two_pow_def)
qed

lemma py_round_error: "\<bar>of_int (py_round y) - y\<bar> \<le> 1 / 2"
  unfolding py_round_def Let_def by (auto simp: abs_le_iff)

lemma double_round_error: "\<bar>double_round x - x\<bar> \<le> \<bar>x\<bar> / 2 ^ 53"
proof (cases "x = 0")
  case True
  then show ?thesis by (simp add: double_round_def)
next
  case False
  define u where "u = two_pow (exponent \<bar>x\<bar>) / 2 ^ 52"
  have up: "0 < u" by (simp add: u_def two_pow_pos)
  have ul: "u \<le> \<bar>x\<bar> / 2 ^ 52"
    using two_pow_exponent_le [of "\<bar>x\<bar>"] False by (simp add: u_def divide_right_mono)
  have dr: "double_round x = of_int (py_round (x / u)) * u"
    using False unfolding double_round_def Let_def u_def by simp
  have "x = x / u * u" using up by simp
  with dr have "double_round x - x = (of_int (py_round (x / u)) - x / u) * u"
    by (simp add: left_diff_distrib)
  then have "\<bar>double_round x - x\<bar> = \<bar>of_int (py_round (x / u)) - x / u\<bar> * u"
    using up by (simp add: abs_mult)
  also have "\<dots> \<le> 1 / 2 * u"
    using py_round_error [of "x / u"] up by (intro mult_right_mono) simp_all
  also have "\<dots> \<le> 1 / 2 * (\<bar>x\<bar> / 2 ^ 52)" using ul by simp
  finally show ?thesis by simp
qed

lemma double_round_near:
  assumes "\<bar>x\<bar> \<le> 1000"
  shows "\<bar>double_round x - x\<bar> \<le> 1 / 10 ^ 12"
proof -
  have "\<bar>x\<bar> / 2 ^ 53 \<le> 1000 / 2 ^ 53" using assms by (simp add: divide_right_mono)
  also have "\<dots> \<le> (1 / 10 ^ 12 :: real)" by simp
  finally show ?thesis using double_round_error [of x] by linarith
qed

lemma double_round_range:
  assumes "lo \<le> x" and "x \<le> hi" and "- 1000 \<le> lo" and "hi \<le> 1000"
  shows "lo - 1 / 10 ^ 6 \<le> double_round x \<and> double_round x \<le> hi + 1 / 10 ^ 6"
proof -
  have "\<bar>x\<bar> \<le> 1000" using assms by linarith
  from double_round_near [OF this] have "\<bar>double_round x - x\<bar> \<le> 1 / 10 ^ 6" by simp
  with assms show ?thesis by linarith
qed

lemma double_round_small_ints:
  "double_round 0 = 0" "double_round 1 = 1" "double_round 2 = 2" "double_round 6 = 6"
  by code_simp+

subsection \<open>The molar mass of CH2O and the ratio to 180.16\<close>

lemma sum_weights_CH2O:
  assumes "tbl ''C'' = Some c" and "tbl ''H'' = Some h" and "tbl ''O'' = Some ox"
  shows "sum_weights (Some tbl) 0 [(''C'', 1), (''H'', 2), (''O'', 1)]
      = Inr (float_add (float_add (float_add 0 (float_mul c 1)) (float_mul h 2)) (float_mul ox 1))"
  using assms by (simp add: get_atomic_weight_def)

lemma molar_mass_CH2O_range:
  assumes "\<bar>c - 12011 / 1000\<bar> \<le> 1 / 100" and "\<bar>h - 1008 / 1000\<bar> \<le> 1 / 1000"
    and "\<bar>ox - 15999 / 1000\<bar> \<le> 1 / 100"
  defines "m \<equiv> float_add (float_add (float_add 0 (float_mul c 1)) (float_mul h 2)) (float_mul ox 1)"
  shows "300025 / 10000 < m \<and> m < 300495 / 10000"
proof -
  let ?fl = double_round
  have cb: "12001 / 1000 \<le> c" "c \<le> 12021 / 1000" using assms(1) by linarith+
  have hb: "1007 / 1000 \<le> h" "h \<le> 1009 / 1000" using assms(2) by linarith+
  have ob: "15989 / 1000 \<le> ox" "ox \<le> 16009 / 1000" using assms(3) by linarith+
  have c: "120009 / 10000 < ?fl c \<and> ?fl c < 120211 / 10000"
    using double_round_range [OF cb] by auto
  have p1: "120008 / 10000 < float_mul c 1 \<and> float_mul c 1 < 120212 / 10000"
    using double_round_range [of "120009 / 10000" "?fl c" "120211 / 10000"] c
    by (auto simp: float_mul_def double_round_small_ints)
  have h: "10069 / 10000 < ?fl h \<and> ?fl h < 10091 / 10000"
    using double_round_range [OF hb] by auto
  have p2: "20137 / 10000 < float_mul h 2 \<and> float_mul h 2 < 20183 / 10000"
    using double_round_range [of "20138 / 10000" "?fl h * 2" "20182 / 10000"] h
    by (auto simp: float_mul_def double_round_small_ints)
  have o: "159889 / 10000 < ?fl ox \<and> ?fl ox < 160091 / 10000"
    using double_round_range [OF ob] by auto
  have p3: "159888 / 10000 < float_mul ox 1 \<and> float_mul ox 1 < 160092 / 10000"
    using double_round_range [of "159889 / 10000" "?fl ox" "160091 / 10000"] o
    by (auto simp: float_mul_def double_round_small_ints)
  have fp1: "120007 / 10000 < ?fl (float_mul c 1) \<and> ?fl (float_mul c 1) < 120213 / 10000"
    using double_round_range [of "120008 / 10000" "float_mul c 1" "120212 / 10000"] p1 by auto
  have a1: "120006 / 10000 < float_add 0 (float_mul c 1)
      \<and> float_add 0 (float_mul c 1) < 120214 / 10000"
    using double_round_range [of "120007 / 10000" "?fl (float_mul c 1)" "120213 / 10000"] fp1
    by (auto simp: float_add_def double_round_small_ints)
  let ?a1 = "float_add 0 (float_mul c 1)"
  have fa1: "120005 / 10000 < ?fl ?a1 \<and> ?fl ?a1 < 120215 / 10000"
    using double_round_range [of "120006 / 10000" ?a1 "120214 / 10000"] a1 by auto
  have fp2: "20136 / 10000 < ?fl (float_mul h 2) \<and> ?fl (float_mul h 2) < 20184 / 10000"
    using double_round_range [of "20137 / 10000" "float_mul h 2" "20183 / 10000"] p2 by auto
  let ?a2 = "float_add ?a1 (float_mul h 2)"
  have a2: "140140 / 10000 < ?a2 \<and> ?a2 < 140400 / 10000"
    using double_round_range [of "140141 / 10000" "?fl ?a1 + ?fl (float_mul h 2)" "140399 / 10000"]
      fa1 fp2
    by (auto simp: float_add_def)
  have fa2: "140139 / 10000 < ?fl ?a2 \<and> ?fl ?a2 < 140401 / 10000"
    using double_round_range [of "140140 / 10000" ?a2 "140400 / 10000"] a2 by auto
  have fp3: "159887 / 10000 < ?fl (float_mul ox 1) \<and> ?fl (float_mul ox 1) < 160093 / 10000"
    using double_round_range [of "159888 / 10000" "float_mul ox 1" "160092 / 10000"] p3 by auto
  have "300025 / 10000 < float_add ?a2 (float_mul ox 1)
      \<and> float_add ?a2 (float_mul ox 1) < 300495 / 10000"
    using double_round_range [of "300026 / 10000" "?fl ?a2 + ?fl (float_mul ox 1)" "300494 / 10000"]
      fa2 fp3
    by (auto simp: float_add_def)
  then show ?thesis by (simp add: m_def)
qed

lemma ratio_CH2O:
  assumes "300025 / 10000 < m" and "m < 300495 / 10000"
  shows "py_round (float_div (18016 / 100) m) = 6
    \<and> \<not> double_round (3 / 100) < \<bar>float_sub (float_div (18016 / 100) m) 6\<bar>"
proof -
  let ?fl = double_round
  have fm: "300024 / 10000 < ?fl m \<and> ?fl m < 300496 / 10000"
    using double_round_range [of "300025 / 10000" m "300495 / 10000"] assms by auto
  have ft: "1801599 / 10000 < ?fl (18016 / 100) \<and> ?fl (18016 / 100) < 1801601 / 10000"
    using double_round_range [of "18016 / 100" "18016 / 100" "18016 / 100"] by auto
  let ?q = "?fl (18016 / 100) / ?fl m"
  have q: "599 / 100 < ?q \<and> ?q < 601 / 100"
  proof -
    have pos: "0 < ?fl m" using fm by linarith
    have "599 / 100 * ?fl m < ?fl (18016 / 100)" using fm ft by linarith
    moreover have "?fl (18016 / 100) < 601 / 100 * ?fl m" using fm ft by linarith
    ultimately show ?thesis using pos by (simp add: field_simps)
  qed
  let ?r = "float_div (18016 / 100) m"
  have r: "59899 / 10000 < ?r \<and> ?r < 60101 / 10000"
    using double_round_range [of "599 / 100" ?q "601 / 100"] q
    by (auto simp: float_div_def)
  then have "\<bar>?r - 6\<bar> < 1 / 2" by linarith
  then have k: "py_round ?r = 6" using py_round_near [of ?r 6] by simp
  have fr: "59898 / 10000 < ?fl ?r \<and> ?fl ?r < 60102 / 10000"
    using double_round_range [of "59899 / 10000" ?r "60101 / 10000"] r by auto
  have d: "\<bar>float_sub ?r 6\<bar> < 103 / 10000"
    using double_round_range [of "- 102 / 10000" "?fl ?r - 6" "102 / 10000"] fr
    by (auto simp: float_sub_def double_round_small_ints abs_less_iff)
  have t: "299 / 10000 < ?fl (3 / 100)"
    using double_round_range [of "3 / 100" "3 / 100" "3 / 100"] by auto
  from k d t show ?thesis by simp
qed

subsection \<open>The rule\<close>

text \<open>
  Claim C6: with the empirical formula parsed and its molar mass \<open>emp_mm\<close> computed (and
  not zero, so that the ratio exists), \<^verbatim>\<open>molecular_formula\<close> takes the quotient
  \<open>ratio = target / emp_mm\<close> and \<open>k = round(ratio)\<close>, fails with the \<open>ValueError\<close> of
  the program exactly when \<open>k \<le> 0\<close> or \<open>\<bar>ratio - k\<bar> > 0.03\<close>, and otherwise returns
  the formatted counts, each multiplied by \<open>k\<close>. The quotient, the difference and 0.03
  are those of the program, that is of doubles. For CH2O and the target 180.16 the result
  is C6H12O6, with every table that gives carbon, hydrogen and oxygen within 0.01, 0.001
  and 0.01 of 12.011, 1.008 and 15.999.
\<close>

theorem molecular_formula_rule:
  "(parse_formula s = Inr emp_counts \<and> sum_weights pt 0 emp_counts = Inr emp_mm \<and> emp_mm \<noteq> 0
      \<longrightarrow> molecular_formula pt s target =
            (let ratio = float_div target emp_mm; k = py_round ratio in
             if k \<le> 0 \<or> double_round (3 / 100) < \<bar>float_sub ratio (of_int k)\<bar>
             then Inl ValueError_not_multiple
             else Inr (format_formula (map (\<lambda>(el, n). (el, n * k)) emp_counts))))
   \<and> (tbl ''C'' = Some c \<and> tbl ''H'' = Some h \<and> tbl ''O'' = Some ox
        \<and> \<bar>c - 12011 / 1000\<bar> \<le> 1 / 100 \<and> \<bar>h - 1008 / 1000\<bar> \<le> 1 / 1000
        \<and> \<bar>ox - 15999 / 1000\<bar> \<le> 1 / 100
      \<longrightarrow> molecular_formula (Some tbl) ''CH2O'' (18016 / 100) = Inr ''C6H12O6'')"
proof (intro conjI impI)
  assume "parse_formula s = Inr emp_counts \<and> sum_weights pt 0 emp_counts = Inr emp_mm \<and> emp_mm \<noteq> 0"
  then show "molecular_formula pt s target =
            (let ratio = float_div target emp_mm; k = py_round ratio in
             if k \<le> 0 \<or> double_round (3 / 100) < \<bar>float_sub ratio (of_int k)\<bar>
             then Inl ValueError_not_multiple
             else Inr (format_formula (map (\<lambda>(el, n). (el, n * k)) emp_counts)))"
    by (simp add: molecular_formula_def)
next
  assume a: "tbl ''C'' = Some c \<and> tbl ''H'' = Some h \<and> tbl ''O'' = Some ox
        \<and> \<bar>c - 12011 / 1000\<bar> \<le> 1 / 100 \<and> \<bar>h - 1008 / 1000\<bar> \<le> 1 / 1000
        \<and> \<bar>ox - 15999 / 1000\<bar> \<le> 1 / 100"
  define m where
    "m = float_add (float_add (float_add 0 (float_mul c 1)) (float_mul h 2)) (float_mul ox 1)"
  have p: "parse_formula ''CH2O'' = Inr [(''C'', 1), (''H'', 2), (''O'', 1)]"
    by code_simp
  have sw: "sum_weights (Some tbl) 0 [(''C'', 1), (''H'', 2), (''O'', 1)] = Inr m"
    using a sum_weights_CH2O [of tbl c h ox] by (simp add: m_def)
  have mr: "300025 / 10000 < m \<and> m < 300495 / 10000"
    unfolding m_def using a by (intro molar_mass_CH2O_range) simp_all
  then have nz: "m \<noteq> 0" by linarith
  from mr have r: "py_round (float_div (18016 / 100) m) = 6"
    "\<not> double_round (3 / 100) < \<bar>float_sub (float_div (18016 / 100) m) 6\<bar>"
    using ratio_CH2O [of m] by simp_all
  have f: "format_formula (map (\<lambda>(el, n). (el, n * 6)) [(''C'', 1), (''H'', 2), (''O'', 1)])
             = ''C6H12O6''"
    by code_simp
  from p sw nz r f show "molecular_formula (Some tbl) ''CH2O'' (18016 / 100) = Inr ''C6H12O6''"
    by (simp add: molecular_formula_def Let_def)
qed

text \<open>
  With the sample table the molar mass of H2O is the double nearest to 18.015. The target
  18.55545 gives a quotient one bit above 1.03, whose distance from 1 exceeds the double
  0.03, and is rejected; the target 36.03 gives H4O2; CH2O and 180.16 give C6H12O6.
\<close>

theorem molecular_formula_rule_witness:
  "parse_formula ''H2O'' = Inr [(''H'', 2), (''O'', 1)]
   \<and> sum_weights (Some sample_table) 0 [(''H'', 2), (''O'', 1)]
       = Inr (1267692926360617 / 70368744177664)
   \<and> (1267692926360617 / 70368744177664 :: real) \<noteq> 0
   \<and> molecular_formula (Some sample_table) ''H2O'' (1855545 / 100000) = Inl ValueError_not_multiple
   \<and> molecular_formula (Some sample_table) ''H2O'' (36030 / 1000) = Inr ''H4O2''
   \<and> sample_table ''C'' = Some (12011 / 1000) \<and> sample_table ''H'' = Some (1008 / 1000)
   \<and> sample_table ''O'' = Some (15999 / 1000)
   \<and> \<bar>12011 / 1000 - 12011 / 1000 :: real\<bar> \<le> 1 / 100
   \<and> \<bar>1008 / 1000 - 1008 / 1000 :: real\<bar> \<le> 1 / 1000
   \<and> \<bar>15999 / 1000 - 15999 / 1000 :: real\<bar> \<le> 1 / 100
   \<and> molecular_formula (Some sample_table) ''CH2O'' (18016 / 100) = Inr ''C6H12O6''"
proof -
  have h1: "parse_formula ''H2O'' = Inr [(''H'', 2), (''O'', 1)]"
    by code_simp
  have h2: "sum_weights (Some sample_table) 0 [(''H'', 2), (''O'', 1)]
              = Inr (1267692926360617 / 70368744177664)"
    by code_simp
  have h3: "(1267692926360617 / 70368744177664 :: real) \<noteq> 0"
    by simp
  have t1: "sample_table ''C'' = Some (12011 / 1000)"
    and t2: "sample_table ''H'' = Some (1008 / 1000)"
    and t3: "sample_table ''O'' = Some (15999 / 1000)"
    by (simp_all add: sample_table_def)
  have b1: "\<bar>12011 / 1000 - 12011 / 1000 :: real\<bar> \<le> 1 / 100"
    and b2: "\<bar>1008 / 1000 - 1008 / 1000 :: real\<bar> \<le> 1 / 1000"
    and b3: "\<bar>15999 / 1000 - 15999 / 1000 :: real\<bar> \<le> 1 / 100"
    by simp_all
  have v1: "(let ratio = float_div (1855545 / 100000) (1267692926360617 / 70368744177664);
                 k = py_round ratio in
             if k \<le> 0 \<or> double_round (3 / 100) < \<bar>float_sub ratio (of_int k)\<bar>
             then Inl ValueError_not_multiple
             else Inr (format_formula (map (\<lambda>(el, n). (el, n * k)) [(''H'', 2), (''O'', 1)])))
           = Inl ValueError_not_multiple"
    by code_simp
  have v2: "(let ratio = float_div (36030 / 1000) (1267692926360617 / 70368744177664);
                 k = py_round ratio in
             if k \<le> 0 \<or> double_round (3 / 100) < \<bar>float_sub ratio (of_int k)\<bar>
             then Inl ValueError_not_multiple
             else Inr (format_formula (map (\<lambda>(el, n). (el, n * k)) [(''H'', 2), (''O'', 1)])))
           = Inr ''H4O2''"
    by code_simp
  note t = molecular_formula_rule [of "''H2O''" "[(''H'', 2), (''O'', 1)]"
      "Some sample_table" "1267692926360617 / 70368744177664" "1855545 / 100000" sample_table
      "12011 / 1000" "1008 / 1000" "15999 / 1000"]
  note u = molecular_formula_rule [of "''H2O''" "[(''H'', 2), (''O'', 1)]"
      "Some sample_table" "1267692926360617 / 70368744177664" "36030 / 1000"]
  have c1: "molecular_formula (Some sample_table) ''H2O'' (1855545 / 100000)
              = Inl ValueError_not_multiple"
    by (rule trans [OF mp [OF conjunct1 [OF t] conjI [OF h1 conjI [OF h2 h3]]] v1])
  have c2: "molecular_formula (Some sample_table) ''H2O'' (36030 / 1000) = Inr ''H4O2''"
    by (rule trans [OF mp [OF conjunct1 [OF u] conjI [OF h1 conjI [OF h2 h3]]] v2])
  have c3: "molecular_formula (Some sample_table) ''CH2O'' (18016 / 100) = Inr ''C6H12O6''"
    using conjunct2 [OF t] t1 t2 t3 b1 b2 b3 by blast
  show ?thesis by (intro conjI h1 h2 h3 c1 c2 t1 t2 t3 b1 b2 b3 c3)
qed

section \<open>What the parser returns\<close>

subsection \<open>Dictionaries and tokens that stay well formed\<close>

lemma set_dict_set: "set (dict_set d k v) \<subseteq> insert (k, v) (set d)"
  by (induction d) (auto split: if_splits)

lemma map_fst_dict_set:
  "map fst (dict_set d k v) = (if k \<in> fst ` set d then map fst d else map fst d @ [k])"
  by (induction d) (force simp: image_iff)+

lemma distinct_dict_set: "distinct (map fst d) \<Longrightarrow> distinct (map fst (dict_set d k v))"
  by (simp add: map_fst_dict_set)

lemma mult_ge_bound:
  fixes x y :: int
  assumes "b = 0 \<or> b = 1" and "b \<le> x" and "b \<le> y"
  shows "b \<le> x * y"
proof (cases "b = 0")
  case True
  with assms show ?thesis by (simp add: mult_nonneg_nonneg)
next
  case False
  with assms have "1 \<le> x" "1 \<le> y" "b = 1" by auto
  then show ?thesis using mult_mono [of 1 x 1 y] by simp
qed

lemma dict_ok_set:
  "dict_ok b d \<Longrightarrow> is_symbol k \<Longrightarrow> b \<le> v \<Longrightarrow> dict_ok b (dict_set d k v)"
  using set_dict_set [of d k v]
  by (auto simp: dict_ok_def list_all_iff distinct_dict_set)

lemma dict_ok_get: "dict_ok b d \<Longrightarrow> 0 \<le> b \<Longrightarrow> 0 \<le> dict_get d k 0"
  by (auto simp: dict_ok_def dict_get_def list_all_iff split: option.splits dest!: map_of_SomeD)

lemma dict_ok_multiply:
  assumes "dict_ok b d" and "b \<le> m" and "b = 0 \<or> b = 1"
  shows "dict_ok b (multiply_counts d m)"
proof -
  have k: "map fst (multiply_counts d m) = map fst d"
    by (induction d) (auto simp: multiply_counts_def)
  have e: "set (multiply_counts d m) = (\<lambda>(el, cnt). (el, cnt * m)) ` set d"
    by (simp add: multiply_counts_def)
  have "b \<le> n * m" if "b \<le> n" for n
    using that assms(2,3) by (intro mult_ge_bound)
  with assms(1) show ?thesis
    unfolding dict_ok_def list_all_iff k e by auto
qed

lemma dict_ok_merge:
  assumes "dict_ok b a" and "dict_ok b d" and "0 \<le> b"
  shows "dict_ok b (merge_counts a d)"
proof -
  have "list_all (\<lambda>(el, n). is_symbol el \<and> b \<le> n) d \<Longrightarrow> dict_ok b a \<Longrightarrow>
        dict_ok b (foldl (\<lambda>out (el, cnt). dict_set out el (dict_get out el 0 + cnt)) a d)"
  proof (induction d arbitrary: a)
    case Nil
    then show ?case by simp
  next
    case (Cons p d)
    obtain el n where p: "p = (el, n)" by (cases p)
    with Cons.prems have e: "is_symbol el" "b \<le> n" by auto
    have "0 \<le> dict_get a el 0" using Cons.prems(2) assms(3) by (rule dict_ok_get)
    with e have "dict_ok b (dict_set a el (dict_get a el 0 + n))"
      by (intro dict_ok_set Cons.prems(2)) auto
    with Cons.IH [of "dict_set a el (dict_get a el 0 + n)"] Cons.prems(1) p
    show ?case by simp
  qed
  with assms show ?thesis by (simp add: merge_counts_def dict_ok_def)
qed

lemma dict_ok_update:
  assumes "dict_ok b a" and "dict_ok b d"
  shows "dict_ok b (dict_update a d)"
proof -
  have "list_all (\<lambda>(el, n). is_symbol el \<and> b \<le> n) d \<Longrightarrow> dict_ok b a \<Longrightarrow>
        dict_ok b (foldl (\<lambda>acc (k, v). dict_set acc k v) a d)"
  proof (induction d arbitrary: a)
    case Nil
    then show ?case by simp
  next
    case (Cons p d)
    obtain el n where p: "p = (el, n)" by (cases p)
    with Cons.prems have "dict_ok b (dict_set a el n)"
      by (intro dict_ok_set) auto
    with Cons.IH [of "dict_set a el n"] Cons.prems(1) p show ?case by simp
  qed
  with assms show ?thesis by (simp add: dict_update_def dict_ok_def)
qed

lemma tokens_ok_tl: "tokens_ok b ts \<Longrightarrow> tokens_ok b (tl ts)"
  by (cases ts) (auto simp: tokens_ok_def)

lemma tokens_ok_opt_number:
  assumes "tokens_ok b ts" and "b \<le> 1" and "opt_number ts = (m, ts')"
  shows "b \<le> m \<and> tokens_ok b ts'"
proof (cases "at_kind Number ts")
  case True
  then obtain v r where "ts = (Number, v) # r"
    by (cases ts) (auto simp: at_kind_def)
  with assms show ?thesis by (auto simp: opt_number_def at_kind_def tokens_ok_def)
next
  case False
  with assms show ?thesis by (auto simp: opt_number_def)
qed

lemma at_kind_Elem_symbol:
  "tokens_ok b ts \<Longrightarrow> at_kind Elem ts \<Longrightarrow> is_symbol (snd (hd ts))"
  by (cases ts) (auto simp: at_kind_def tokens_ok_def)

lemma parse_unit_from_ok:
  assumes "b = 0 \<or> b = 1"
  shows "tokens_ok b ts \<Longrightarrow> dict_ok b counts \<Longrightarrow> parse_unit_from counts ts = Inr (c, r)
           \<Longrightarrow> dict_ok b c \<and> tokens_ok b r"
proof (induction counts ts arbitrary: c r rule: parse_unit_from.induct)
  case (1 counts)
  then show ?case by simp
next
  case (2 counts val ts)
  then show ?case by auto
next
  case (3 counts val ts)
  from "3.prems"(3) obtain right ts' where
    i: "parse_unit_from [] ts = Inr (right, ts')"
    and c: "c = dict_update counts (merge_counts counts right)" and r: "r = ts'"
    by (auto split: sum.splits)
  have "tokens_ok b ts" using "3.prems"(1) by (simp add: tokens_ok_def)
  moreover have "dict_ok b []" by (simp add: dict_ok_def)
  ultimately have "dict_ok b right \<and> tokens_ok b ts'" using "3.IH" i by blast
  with "3.prems"(2) assms c r show ?case
    by (auto intro!: dict_ok_update dict_ok_merge)
next
  case (4 counts val ts)
  obtain mult ts' where o: "opt_number ts = (mult, ts')" by (cases "opt_number ts")
  have t: "tokens_ok b ts" and s: "is_symbol val" using "4.prems"(1) by (simp_all add: tokens_ok_def)
  from tokens_ok_opt_number [OF t _ o] assms have m: "b \<le> mult" "tokens_ok b ts'" by auto
  have "0 \<le> dict_get counts val 0" using "4.prems"(2) assms by (auto intro: dict_ok_get)
  with m assms have "b \<le> dict_get counts val 0 + mult" by auto
  with "4.prems"(2) s have d: "dict_ok b (dict_set counts val (dict_get counts val 0 + mult))"
    by (intro dict_ok_set)
  from "4.prems"(3) o
  have "parse_unit_from (dict_set counts val (dict_get counts val 0 + mult)) ts' = Inr (c, r)"
    by simp
  with "4.IH" [OF o [symmetric] m(2) d] show ?case by blast
next
  case (5 counts val ts)
  from "5.prems"(3) obtain inner ts1 where
    i: "parse_unit_from [] ts = Inr (inner, ts1)"
    by (auto split: sum.splits)
  from "5.prems"(3) i have k: "at_kind RParen ts1" by (auto split: if_splits)
  obtain mult ts2 where o: "opt_number (tl ts1) = (mult, ts2)" by (cases "opt_number (tl ts1)")
  from "5.prems"(3) i k o
  have e: "parse_unit_from (merge_counts counts (multiply_counts inner mult)) ts2 = Inr (c, r)"
    by simp
  have "tokens_ok b ts" using "5.prems"(1) by (simp add: tokens_ok_def)
  moreover have "dict_ok b []" by (simp add: dict_ok_def)
  ultimately have in_ok: "dict_ok b inner" "tokens_ok b ts1" using "5.IH"(1) i by blast+
  from tokens_ok_opt_number [OF tokens_ok_tl [OF in_ok(2)] _ o] assms
  have m: "b \<le> mult" "tokens_ok b ts2" by auto
  have "dict_ok b (merge_counts counts (multiply_counts inner mult))"
    using "5.prems"(2) in_ok(1) m(1) assms by (auto intro!: dict_ok_merge dict_ok_multiply)
  with "5.IH"(2) i k o [symmetric] m(2) e show ?case by blast
next
  case (6 counts val ts)
  have t: "tokens_ok b ts" and v: "b \<le> py_int val"
    using "6.prems"(1) by (simp_all add: tokens_ok_def)
  show ?case
  proof (cases "at_kind Elem ts")
    case True
    obtain cnt ts1 where o: "opt_number (tl ts) = (cnt, ts1)" by (cases "opt_number (tl ts)")
    from "6.prems"(3) True o
    have e: "parse_unit_from
               (dict_set counts (snd (hd ts)) (dict_get counts (snd (hd ts)) 0 + py_int val * cnt))
               ts1 = Inr (c, r)"
      by simp
    from tokens_ok_opt_number [OF tokens_ok_tl [OF t] _ o] assms
    have m: "b \<le> cnt" "tokens_ok b ts1" by auto
    have s: "is_symbol (snd (hd ts))" using t True by (rule at_kind_Elem_symbol)
    have "0 \<le> dict_get counts (snd (hd ts)) 0"
      using "6.prems"(2) assms by (auto intro: dict_ok_get)
    moreover have "b \<le> py_int val * cnt"
      using assms v m(1) by (rule mult_ge_bound)
    ultimately have "b \<le> dict_get counts (snd (hd ts)) 0 + py_int val * cnt" by simp
    with "6.prems"(2) s
    have "dict_ok b (dict_set counts (snd (hd ts))
                       (dict_get counts (snd (hd ts)) 0 + py_int val * cnt))"
      by (intro dict_ok_set)
    with "6.IH"(1) True o [symmetric] m(2) e show ?thesis by blast
  next
    case False
    from "6.prems"(3) False have l: "at_kind LParen ts" by (auto split: if_splits)
    from "6.prems"(3) False l obtain inner ts1 where
      i: "parse_unit_from [] (tl ts) = Inr (inner, ts1)"
      by (auto split: sum.splits)
    from "6.prems"(3) False l i have k: "at_kind RParen ts1" by (auto split: if_splits)
    obtain cnt ts2 where o: "opt_number (tl ts1) = (cnt, ts2)" by (cases "opt_number (tl ts1)")
    from "6.prems"(3) False l i k o
    have e: "parse_unit_from (merge_counts counts (multiply_counts inner (py_int val * cnt))) ts2
             = Inr (c, r)"
      by simp
    have "dict_ok b []" by (simp add: dict_ok_def)
    with "6.IH"(2) False l i tokens_ok_tl [OF t]
    have in_ok: "dict_ok b inner" "tokens_ok b ts1" by blast+
    from tokens_ok_opt_number [OF tokens_ok_tl [OF in_ok(2)] _ o] assms
    have m: "b \<le> cnt" "tokens_ok b ts2" by auto
    have "b \<le> py_int val * cnt"
      using assms v m(1) by (rule mult_ge_bound)
    then have "dict_ok b (merge_counts counts (multiply_counts inner (py_int val * cnt)))"
      using "6.prems"(2) in_ok(1) assms by (auto intro!: dict_ok_merge dict_ok_multiply)
    with "6.IH"(3) False l i k o [symmetric] m(2) e show ?thesis by blast
  qed
next
  case (7 counts val ts)
  then show ?case by (simp add: tokens_ok_def)
qed

lemma emit_Inr: "emit t r = Inr ts \<longleftrightarrow> (\<exists>ts'. r = Inr ts' \<and> ts = t # ts')"
  by (cases r) (auto simp: emit_def)

lemma py_int_fold_nonneg:
  "0 \<le> a \<Longrightarrow> list_all is_digit v \<Longrightarrow>
     0 \<le> foldl (\<lambda>a c. 10 * a + (int (of_char c) - 48)) a v"
proof (induction v arbitrary: a)
  case Nil
  then show ?case by simp
next
  case (Cons c v)
  from Cons.prems have "0 \<le> 10 * a + (int (of_char c) - 48)"
    by (simp add: is_digit_def)
  with Cons.IH [of "10 * a + (int (of_char c) - 48)"] Cons.prems show ?case by simp
qed

lemma py_int_nonneg: "list_all is_digit v \<Longrightarrow> 0 \<le> py_int v"
  unfolding py_int_def by (rule py_int_fold_nonneg) simp_all

lemma tokens_ok_Cons:
  "tokens_ok b ((k, v) # ts) \<longleftrightarrow>
     (k = Number \<longrightarrow> b \<le> py_int v) \<and> (k = Elem \<longrightarrow> is_symbol v) \<and> tokens_ok b ts"
  by (simp add: tokens_ok_def)

lemma tokenize_ok: "tokenize s = Inr ts \<Longrightarrow> tokens_ok 0 ts"
proof (induction s arbitrary: ts rule: tokenize.induct)
  case 1
  then show ?case by (simp add: tokens_ok_def)
next
  case (2 c cs)
  consider (dot) "is_dot c"
    | (lp) "\<not> is_dot c" "is_lparen c"
    | (rp) "\<not> is_dot c" "\<not> is_lparen c" "is_rparen c"
    | (num) "\<not> is_dot c" "\<not> is_lparen c" "\<not> is_rparen c" "is_digit c"
    | (el) "\<not> is_dot c" "\<not> is_lparen c" "\<not> is_rparen c" "\<not> is_digit c" "is_upper c"
    | (sp) "\<not> is_dot c" "\<not> is_lparen c" "\<not> is_rparen c" "\<not> is_digit c" "\<not> is_upper c"
        "is_space c"
    | (bad) "\<not> is_dot c" "\<not> is_lparen c" "\<not> is_rparen c" "\<not> is_digit c" "\<not> is_upper c"
        "\<not> is_space c"
    by blast
  then show ?case
  proof cases
    case dot
    with "2.prems" obtain ts' where "tokenize cs = Inr ts'" "ts = (Dot, [c]) # ts'"
      by (auto simp: emit_Inr)
    with "2.IH"(1) dot show ?thesis by (simp add: tokens_ok_Cons)
  next
    case lp
    with "2.prems" obtain ts' where "tokenize cs = Inr ts'" "ts = (LParen, [c]) # ts'"
      by (auto simp: emit_Inr)
    with "2.IH"(2) lp show ?thesis by (simp add: tokens_ok_Cons)
  next
    case rp
    with "2.prems" obtain ts' where "tokenize cs = Inr ts'" "ts = (RParen, [c]) # ts'"
      by (auto simp: emit_Inr)
    with "2.IH"(3) rp show ?thesis by (simp add: tokens_ok_Cons)
  next
    case num
    with "2.prems" obtain ts' where t: "tokenize (dropWhile is_digit cs) = Inr ts'"
      "ts = (Number, c # takeWhile is_digit cs) # ts'"
      by (auto simp: emit_Inr)
    have "list_all is_digit (c # takeWhile is_digit cs)"
      using num(4) by (auto simp: list_all_iff dest: set_takeWhileD)
    then have "0 \<le> py_int (c # takeWhile is_digit cs)" by (rule py_int_nonneg)
    with "2.IH"(4) num t show ?thesis by (simp add: tokens_ok_Cons)
  next
    case el
    show ?thesis
    proof (cases cs)
      case Nil
      with "2.prems" el have "ts = [(Elem, [c])]" by (auto simp: emit_Inr)
      with el show ?thesis by (simp add: tokens_ok_def is_symbol_def)
    next
      case (Cons d ds)
      show ?thesis
      proof (cases "is_lower d")
        case True
        with "2.prems" el Cons obtain ts' where t: "tokenize ds = Inr ts'"
          "ts = (Elem, [c, d]) # ts'"
          by (auto simp: emit_Inr)
        with "2.IH"(6) el Cons True show ?thesis by (simp add: tokens_ok_Cons is_symbol_def)
      next
        case False
        with "2.prems" el Cons obtain ts' where t: "tokenize cs = Inr ts'"
          "ts = (Elem, [c]) # ts'"
          by (auto simp: emit_Inr)
        with "2.IH"(7) el Cons False show ?thesis by (simp add: tokens_ok_Cons is_symbol_def)
      qed
    qed
  next
    case sp
    with "2.prems" have "tokenize (dropWhile is_space cs) = Inr ts" by simp
    with "2.IH"(8) sp show ?thesis by simp
  next
    case bad
    with "2.prems" show ?thesis by simp
  qed
qed

lemma tokens_ok_positive:
  "tokens_ok 0 ts \<Longrightarrow> list_all (\<lambda>(k, v). k = Number \<longrightarrow> py_int v \<noteq> 0) ts \<Longrightarrow> tokens_ok 1 ts"
  by (fastforce simp: tokens_ok_def list_all_iff)

lemma parse_formula_ok:
  assumes "b = 0 \<or> b = 1" and "tokenize s = Inr ts" and "tokens_ok b ts"
    and "parse_formula s = Inr counts"
  shows "dict_ok b counts"
proof -
  from assms(2,4) obtain rest where "parse_unit_from [] ts = Inr (counts, rest)"
    by (auto simp: parse_formula_def parse_unit_def split: sum.splits if_splits)
  moreover have "dict_ok b []" by (simp add: dict_ok_def)
  ultimately show ?thesis using parse_unit_from_ok [OF assms(1) assms(3)] by blast
qed

subsection \<open>The sign of the counts\<close>

text \<open>
  Claim C3 says that every value of a dictionary returned by \<^verbatim>\<open>parse_formula\<close> is
  strictly positive, also for a text with a zero multiplier. The program keeps such keys:
  nothing removes an entry whose count is 0.
\<close>

theorem parse_formula_zero_count:
  "parse_formula ''H0'' = Inr [(''H'', 0)]
   \<and> parse_formula ''(H2O)0'' = Inr [(''H'', 0), (''O'', 0)]"
  by code_simp

text \<open>
  Claim C3 as amended: every value of a dictionary returned by \<^verbatim>\<open>parse_formula\<close> is
  at least 0, and every value is strictly positive when no \<open>Number\<close> token of the text
  has the value 0.
\<close>

theorem parse_formula_counts_sign:
  assumes "tokenize s = Inr ts" and "parse_formula s = Inr counts"
  shows "list_all (\<lambda>(el, n). 0 \<le> n) counts
    \<and> (list_all (\<lambda>(k, v). k = Number \<longrightarrow> py_int v \<noteq> 0) ts
         \<longrightarrow> list_all (\<lambda>(el, n). 0 < n) counts)"
proof (intro conjI impI)
  have t0: "tokens_ok 0 ts" using assms(1) by (rule tokenize_ok)
  have "dict_ok 0 counts" using parse_formula_ok [OF _ assms(1) t0 assms(2)] by simp
  then show "list_all (\<lambda>(el, n). 0 \<le> n) counts"
    by (auto simp: dict_ok_def list_all_iff)
  assume "list_all (\<lambda>(k, v). k = Number \<longrightarrow> py_int v \<noteq> 0) ts"
  with t0 have t1: "tokens_ok 1 ts" by (rule tokens_ok_positive)
  have "dict_ok 1 counts" using parse_formula_ok [OF _ assms(1) t1 assms(2)] by simp
  then show "list_all (\<lambda>(el, n). 0 < n) counts"
    by (fastforce simp: dict_ok_def list_all_iff)
qed

theorem parse_formula_counts_sign_witness:
  "parse_formula ''(NH4)2SO4'' = Inr [(''N'', 2), (''H'', 8), (''S'', 1), (''O'', 4)]
   \<and> list_all (\<lambda>(el, n). 0 < n) [(''N'', 2), (''H'', 8), (''S'', 1), (''O'', 4 :: int)]"
proof -
  have h1: "tokenize ''(NH4)2SO4''
      = Inr [(LParen, ''(''), (Elem, ''N''), (Elem, ''H''), (Number, ''4''), (RParen, '')''),
             (Number, ''2''), (Elem, ''S''), (Elem, ''O''), (Number, ''4'')]"
    by code_simp
  have h2: "parse_formula ''(NH4)2SO4'' = Inr [(''N'', 2), (''H'', 8), (''S'', 1), (''O'', 4)]"
    by code_simp
  have h3: "list_all (\<lambda>(k, v). k = Number \<longrightarrow> py_int v \<noteq> 0)
      [(LParen, ''(''), (Elem, ''N''), (Elem, ''H''), (Number, ''4''), (RParen, '')''),
       (Number, ''2''), (Elem, ''S''), (Elem, ''O''), (Number, ''4'')]"
    by code_simp
  from parse_formula_counts_sign [OF h1 h2] h3
  have "list_all (\<lambda>(el, n). 0 < n) [(''N'', 2), (''H'', 8), (''S'', 1), (''O'', 4 :: int)]"
    by blast
  with h2 show ?thesis by (intro conjI)
qed

section \<open>Formatting and parsing again\<close>

subsection \<open>The text of a count is read back as that count\<close>

lemma upper_not_others:
  "is_upper c \<Longrightarrow> \<not> is_dot c \<and> \<not> is_lparen c \<and> \<not> is_rparen c \<and> \<not> is_digit c \<and> \<not> is_lower c"
  by (auto simp: is_upper_def is_dot_def is_lparen_def is_rparen_def is_digit_def is_lower_def)

lemma digit_not_others:
  "is_digit c \<Longrightarrow> \<not> is_dot c \<and> \<not> is_lparen c \<and> \<not> is_rparen c \<and> \<not> is_lower c \<and> \<not> is_upper c"
  by (auto simp: is_upper_def is_dot_def is_lparen_def is_rparen_def is_digit_def is_lower_def)

lemma is_digit_char_of: "d < 10 \<Longrightarrow> is_digit (char_of (48 + d :: nat))"
  by (simp add: is_digit_def)

lemma show_nat_digits: "list_all is_digit (show_nat n) \<and> show_nat n \<noteq> []"
proof (induction n rule: show_nat.induct)
  case (1 n)
  show ?case
  proof (cases "n < 10")
    case True
    then show ?thesis by (simp add: show_nat.simps [of n] is_digit_char_of)
  next
    case False
    with 1 show ?thesis by (simp add: show_nat.simps [of n] is_digit_char_of)
  qed
qed

lemma py_int_snoc: "py_int (ds @ [c]) = 10 * py_int ds + (int (of_char c) - 48)"
  by (simp add: py_int_def)

lemma py_int_show_nat: "py_int (show_nat n) = int n"
proof (induction n rule: show_nat.induct)
  case (1 n)
  show ?case
  proof (cases "n < 10")
    case True
    then show ?thesis by (simp add: show_nat.simps [of n] py_int_def)
  next
    case False
    with 1 have "py_int (show_nat (n div 10)) = int (n div 10)" by simp
    moreover have "10 * int (n div 10) + int (n mod 10) = int n"
      by (metis mult_div_mod_eq of_nat_add of_nat_mult of_nat_numeral)
    ultimately show ?thesis using False
      by (simp add: show_nat.simps [of n] py_int_snoc)
  qed
qed

lemma py_int_show_int: "0 \<le> n \<Longrightarrow> py_int (show_int n) = n"
  by (simp add: show_int_def py_int_show_nat)

lemma show_int_digits: "0 \<le> n \<Longrightarrow> list_all is_digit (show_int n) \<and> show_int n \<noteq> []"
  by (simp add: show_int_def show_nat_digits)

subsection \<open>The tokens of a formatted dictionary\<close>

lemma takeWhile_all_then_stop:
  assumes "list_all P xs" and "rest = [] \<or> \<not> P (hd rest)"
  shows "takeWhile P (xs @ rest) = xs \<and> dropWhile P (xs @ rest) = rest"
proof -
  from assms(2) have "takeWhile P rest = [] \<and> dropWhile P rest = rest"
    by (cases rest) auto
  with assms(1) show ?thesis
    by (simp add: list_all_iff takeWhile_append2 dropWhile_append2)
qed

lemma tokenize_digits:
  assumes "list_all is_digit ds" and "ds \<noteq> []" and "rest = [] \<or> \<not> is_digit (hd rest)"
  shows "tokenize (ds @ rest) = emit (Number, ds) (tokenize rest)"
proof -
  from assms(2) obtain c ds' where ds: "ds = c # ds'" by (cases ds) auto
  with assms(1) have c: "is_digit c" and r: "list_all is_digit ds'" by simp_all
  from takeWhile_all_then_stop [OF r assms(3)] c digit_not_others [OF c] ds
  show ?thesis by simp
qed

lemma tokenize_symbol:
  assumes "is_symbol el" and "rest = [] \<or> \<not> is_lower (hd rest)"
  shows "tokenize (el @ rest) = emit (Elem, el) (tokenize rest)"
proof -
  from assms(1) consider (one) c where "el = [c]" "is_upper c"
    | (two) c d where "el = [c, d]" "is_upper c" "is_lower d"
    by (auto simp: is_symbol_def split: list.splits)
  then show ?thesis
  proof cases
    case one
    with assms(2) upper_not_others [OF one(2)] show ?thesis
      by (cases rest) auto
  next
    case two
    with upper_not_others [OF two(2)] show ?thesis by simp
  qed
qed

lemma render_starts_upper:
  assumes "list_all (\<lambda>(el, n). is_symbol el \<and> 0 \<le> n) xs"
  shows "concat (map render_item xs) = [] \<or> is_upper (hd (concat (map render_item xs)))"
proof (cases xs)
  case Nil
  then show ?thesis by simp
next
  case (Cons p ys)
  obtain el n where p: "p = (el, n)" by (cases p)
  with assms Cons have "is_symbol el" by simp
  then obtain c cs where "el = c # cs" "is_upper c"
    by (auto simp: is_symbol_def split: list.splits)
  with Cons p show ?thesis by (simp add: render_item_def)
qed

lemma tokenize_render:
  "list_all (\<lambda>(el, n). is_symbol el \<and> 0 \<le> n) xs \<Longrightarrow>
     tokenize (concat (map render_item xs)) = Inr (concat (map item_tokens xs))"
proof (induction xs)
  case Nil
  show ?case by simp
next
  case (Cons p xs)
  obtain el n where p: "p = (el, n)" by (cases p)
  let ?R = "concat (map render_item xs)"
  from Cons.prems p have s: "is_symbol el" and n: "0 \<le> n"
    and rest: "list_all (\<lambda>(el, n). is_symbol el \<and> 0 \<le> n) xs" by simp_all
  have IH: "tokenize ?R = Inr (concat (map item_tokens xs))" by (rule Cons.IH [OF rest])
  have up: "?R = [] \<or> is_upper (hd ?R)" by (rule render_starts_upper [OF rest])
  show ?case
  proof (cases "n = 1")
    case True
    from up have "?R = [] \<or> \<not> is_lower (hd ?R)" using upper_not_others by blast
    from tokenize_symbol [OF s this] IH
    have "tokenize (el @ ?R) = Inr ((Elem, el) # concat (map item_tokens xs))"
      by (simp add: emit_def)
    moreover have "render_item p = el" "item_tokens p = [(Elem, el)]"
      using p True by (simp_all add: render_item_def item_tokens_def)
    ultimately show ?thesis by simp
  next
    case False
    let ?D = "show_int n"
    have d: "list_all is_digit ?D" "?D \<noteq> []" using show_int_digits [OF n] by simp_all
    from up have "?R = [] \<or> \<not> is_digit (hd ?R)" using upper_not_others by blast
    from tokenize_digits [OF d this] IH
    have t1: "tokenize (?D @ ?R) = Inr ((Number, ?D) # concat (map item_tokens xs))"
      by (simp add: emit_def)
    from d have "is_digit (hd (?D @ ?R))" by (cases ?D) auto
    then have "?D @ ?R = [] \<or> \<not> is_lower (hd (?D @ ?R))" using digit_not_others by blast
    from tokenize_symbol [OF s this] t1
    have "tokenize (el @ ?D @ ?R) = Inr ((Elem, el) # (Number, ?D) # concat (map item_tokens xs))"
      by (simp add: emit_def)
    moreover have "render_item p = el @ ?D" "item_tokens p = [(Elem, el), (Number, ?D)]"
      using p False by (simp_all add: render_item_def item_tokens_def)
    ultimately show ?thesis by simp
  qed
qed

subsection \<open>Parsing the tokens of a formatted dictionary\<close>

lemma dict_get_fresh: "k \<notin> fst ` set d \<Longrightarrow> dict_get d k dflt = dflt"
  by (simp add: dict_get_def map_of_eq_None_iff [THEN iffD2])

lemma dict_set_fresh: "k \<notin> fst ` set d \<Longrightarrow> dict_set d k v = d @ [(k, v)]"
  by (induction d) auto

lemma item_tokens_not_number: "\<not> at_kind Number (concat (map item_tokens xs))"
proof (cases xs)
  case Nil
  then show ?thesis by (simp add: at_kind_def)
next
  case (Cons p ys)
  obtain el n where "p = (el, n)" by (cases p)
  with Cons show ?thesis by (simp add: at_kind_def item_tokens_def)
qed

lemma parse_item_tokens:
  "distinct (map fst (counts @ xs)) \<Longrightarrow> list_all (\<lambda>(el, n). 0 \<le> n) xs \<Longrightarrow>
     parse_unit_from counts (concat (map item_tokens xs)) = Inr (counts @ xs, [])"
proof (induction xs arbitrary: counts)
  case Nil
  show ?case by simp
next
  case (Cons p xs)
  obtain el n where p: "p = (el, n)" by (cases p)
  let ?T = "concat (map item_tokens xs)"
  from Cons.prems p have fresh: "el \<notin> fst ` set counts" and n: "0 \<le> n"
    and rest: "list_all (\<lambda>(el, n). 0 \<le> n) xs" by auto
  have d: "distinct (map fst ((counts @ [(el, n)]) @ xs))" using Cons.prems(1) p by simp
  have IH: "parse_unit_from (counts @ [(el, n)]) ?T = Inr ((counts @ [(el, n)]) @ xs, [])"
    by (rule Cons.IH [OF d rest])
  have upd: "dict_set counts el (dict_get counts el 0 + n) = counts @ [(el, n)]"
    using fresh by (simp add: dict_get_fresh dict_set_fresh)
  show ?case
  proof (cases "n = 1")
    case True
    have "item_tokens p = [(Elem, el)]" using p True by (simp add: item_tokens_def)
    moreover have "opt_number ?T = (1, ?T)"
      using item_tokens_not_number [of xs] by (simp add: opt_number_def)
    ultimately show ?thesis using IH upd p True by simp
  next
    case False
    have "item_tokens p = [(Elem, el), (Number, show_int n)]"
      using p False by (simp add: item_tokens_def)
    moreover have "opt_number ((Number, show_int n) # ?T) = (n, ?T)"
      using n by (simp add: opt_number_def at_kind_def py_int_show_int)
    ultimately show ?thesis using IH upd p by simp
  qed
qed

lemma format_formula_render:
  "format_formula counts = concat (map render_item (sort_key order_key counts))"
proof -
  have "render_item = (\<lambda>(el, n). el @ (if n = 1 then [] else show_int n))"
    by (auto simp: render_item_def fun_eq_iff)
  then show ?thesis by (simp add: format_formula_def)
qed

lemma distinct_keys_sort:
  "distinct (map fst d) \<Longrightarrow> distinct (map fst (sort_key f d))"
  by (simp add: distinct_map)

lemma parse_format:
  assumes "dict_ok 0 counts"
  shows "parse_formula (format_formula counts) = Inr (sort_key order_key counts)
    \<and> map_of (sort_key order_key counts) = map_of counts"
proof -
  let ?xs = "sort_key order_key counts"
  from assms have d: "distinct (map fst counts)"
    and a: "list_all (\<lambda>(el, n). is_symbol el \<and> 0 \<le> n) counts"
    by (simp_all add: dict_ok_def)
  have ds: "distinct (map fst ?xs)" using d by (rule distinct_keys_sort)
  from a have as: "list_all (\<lambda>(el, n). is_symbol el \<and> 0 \<le> n) ?xs"
    by (simp add: list_all_iff)
  then have an: "list_all (\<lambda>(el, n). 0 \<le> n) ?xs"
    by (auto simp: list_all_iff)
  have t: "tokenize (format_formula counts) = Inr (concat (map item_tokens ?xs))"
    unfolding format_formula_render by (rule tokenize_render [OF as])
  have "parse_unit_from [] (concat (map item_tokens ?xs)) = Inr ([] @ ?xs, [])"
    by (rule parse_item_tokens) (use ds an in simp_all)
  with t have p: "parse_formula (format_formula counts) = Inr ?xs"
    by (simp add: parse_formula_def parse_unit_def at_kind_def)
  have "map_of ?xs = map_of counts"
    using ds d by (simp add: map_of_inject_set)
  with p show ?thesis by simp
qed

text \<open>
  Claim C4: for every text \<open>s\<close> that \<^verbatim>\<open>parse_formula\<close> accepts, formatting the result
  and parsing the formatted text succeeds and gives a dictionary equal to the first one in
  Python's sense, the same keys with the same values (the order of the keys is that of the
  formatter); both dictionaries have distinct keys.
\<close>

theorem parse_format_parse:
  assumes "parse_formula s = Inr counts"
  shows "\<exists>counts'. parse_formula (format_formula counts) = Inr counts'
    \<and> map_of counts' = map_of counts
    \<and> distinct (map fst counts) \<and> distinct (map fst counts')"
proof -
  from assms obtain ts where t: "tokenize s = Inr ts"
    by (auto simp: parse_formula_def split: sum.splits)
  have ok: "dict_ok 0 counts"
    using parse_formula_ok [OF _ t tokenize_ok [OF t] assms] by simp
  from parse_format [OF ok] ok show ?thesis
    by (auto simp: dict_ok_def distinct_keys_sort)
qed

text \<open>Calcium phosphate: Ca3(PO4)2 is formatted as Ca3O8P2 and read back.\<close>

theorem parse_format_parse_witness:
  "parse_formula ''Ca3(PO4)2'' = Inr [(''Ca'', 3), (''P'', 2), (''O'', 8)]
   \<and> format_formula [(''Ca'', 3), (''P'', 2), (''O'', 8)] = ''Ca3O8P2''
   \<and> (\<exists>counts'. parse_formula (format_formula [(''Ca'', 3), (''P'', 2), (''O'', 8)]) = Inr counts'
        \<and> map_of counts' = map_of [(''Ca'', 3), (''P'', 2), (''O'', 8)]
        \<and> distinct (map fst [(''Ca'', 3 :: int), (''P'', 2), (''O'', 8)])
        \<and> distinct (map fst counts'))"
proof -
  have h: "parse_formula ''Ca3(PO4)2'' = Inr [(''Ca'', 3), (''P'', 2), (''O'', 8)]"
    by code_simp
  have f: "format_formula [(''Ca'', 3), (''P'', 2), (''O'', 8)] = ''Ca3O8P2''"
    by code_simp
  show ?thesis by (intro conjI h f parse_format_parse [OF h])
qed

end
